theory Spec2Isabelle
  imports Complex_Main "HOL-Library.Char_ord" "HOL-Library.List_Lexorder"
    "HOL-Library.Product_Lexorder" "HOL-Library.Multiset"
begin

section \<open>Timestamps\<close>

text \<open>
  The pipeline handles naive timestamps at whole-second resolution: every format string
  of the source is \<^verbatim>\<open>%Y-%m-%d %H:%M:%S\<close>. A timestamp is Python's
  \<^verbatim>\<open>datetime\<close> with its six calendar fields; comparison is the
  lexicographic comparison of the fields.
\<close>

record datetime =
  year :: nat
  month :: nat
  day :: nat
  hour :: nat
  minute :: nat
  second :: nat

definition dt_key :: "datetime \<Rightarrow> nat \<times> nat \<times> nat \<times> nat \<times> nat \<times> nat" where
  "dt_key d = (year d, month d, day d, hour d, minute d, second d)"

definition is_leap :: "nat \<Rightarrow> bool" where
  "is_leap y = (y mod 4 = 0 \<and> (y mod 100 \<noteq> 0 \<or> y mod 400 = 0))"

definition days_in_month :: "nat \<Rightarrow> nat \<Rightarrow> nat" where
  "days_in_month y m =
     (if m = 2 then (if is_leap y then 29 else 28)
      else if m = 4 \<or> m = 6 \<or> m = 9 \<or> m = 11 then 30 else 31)"

definition valid_datetime :: "datetime \<Rightarrow> bool" where
  "valid_datetime d =
     (1 \<le> year d \<and> year d \<le> 9999 \<and> 1 \<le> month d \<and> month d \<le> 12 \<and>
      1 \<le> day d \<and> day d \<le> days_in_month (year d) (month d) \<and>
      hour d < 24 \<and> minute d < 60 \<and> second d < 60)"

datatype error = ClientError | ValueError | OverflowError | AttributeError
  | IndexError | FileNotFoundError | NotImplementedError | EmptyDataFrame | UploadError

text \<open>
  \<^verbatim>\<open>dt + timedelta(seconds=1)\<close>: the next second of the calendar, with every
  carry written out. Python raises OverflowError past the year 9999.
\<close>

definition plus_one_second :: "datetime \<Rightarrow> error + datetime" where
  "plus_one_second d =
     (if second d < 59 then Inr (d\<lparr>second := second d + 1\<rparr>)
      else if minute d < 59 then Inr (d\<lparr>minute := minute d + 1, second := 0\<rparr>)
      else if hour d < 23 then Inr (d\<lparr>hour := hour d + 1, minute := 0, second := 0\<rparr>)
      else if day d < days_in_month (year d) (month d)
        then Inr (d\<lparr>day := day d + 1, hour := 0, minute := 0, second := 0\<rparr>)
      else if month d < 12
        then Inr (d\<lparr>month := month d + 1, day := 1, hour := 0, minute := 0, second := 0\<rparr>)
      else if year d < 9999
        then Inr (d\<lparr>year := year d + 1, month := 1, day := 1,
                      hour := 0, minute := 0, second := 0\<rparr>)
      else Inl OverflowError)"

subsection \<open>Text form of a timestamp\<close>

definition digit_char :: "nat \<Rightarrow> char" where
  "digit_char n = char_of (48 + n)"

definition digit_val :: "char \<Rightarrow> nat option" where
  "digit_val c =
     (if CHR ''0'' \<le> c \<and> c \<le> CHR ''9'' then Some (of_char c - 48) else None)"

definition two_digits :: "nat \<Rightarrow> string" where
  "two_digits n = [digit_char (n div 10 mod 10), digit_char (n mod 10)]"

definition four_digits :: "nat \<Rightarrow> string" where
  "four_digits n = two_digits (n div 100) @ two_digits (n mod 100)"

text \<open>
  \<^verbatim>\<open>dt.strftime('%Y-%m-%d %H:%M:%S')\<close>, which is also what \<^verbatim>\<open>str(ts)\<close>
  gives for a pandas Timestamp of whole seconds.
\<close>

definition strftime :: "datetime \<Rightarrow> string" where
  "strftime d =
     four_digits (year d) @ ''-'' @ two_digits (month d) @ ''-'' @ two_digits (day d) @
     '' '' @ two_digits (hour d) @ '':'' @ two_digits (minute d) @ '':'' @
     two_digits (second d)"

definition read2 :: "char \<Rightarrow> char \<Rightarrow> nat option" where
  "read2 a b =
     (case (digit_val a, digit_val b) of
        (Some x, Some y) \<Rightarrow> Some (10 * x + y)
      | _ \<Rightarrow> None)"

definition read4 :: "char \<Rightarrow> char \<Rightarrow> char \<Rightarrow> char \<Rightarrow> nat option" where
  "read4 a b c e =
     (case (read2 a b, read2 c e) of
        (Some x, Some y) \<Rightarrow> Some (100 * x + y)
      | _ \<Rightarrow> None)"

text \<open>
  \<^verbatim>\<open>datetime.fromisoformat\<close> on the nineteen-character spelling
  \<^verbatim>\<open>YYYY-MM-DD?HH:MM:SS\<close> (any one separator character between date and
  time), the only spelling the pipeline itself writes. Field values outside the calendar
  are refused, as Python refuses them with ValueError.
\<close>

definition fromisoformat :: "string \<Rightarrow> datetime option" where
  "fromisoformat s =
     (case s of
        [y1, y2, y3, y4, a, m1, m2, b, d1, d2, sep, h1, h2, c, n1, n2, e, s1, s2] \<Rightarrow>
          (if a = CHR ''-'' \<and> b = CHR ''-'' \<and> c = CHR '':'' \<and> e = CHR '':'' then
             (case (read4 y1 y2 y3 y4, read2 m1 m2, read2 d1 d2,
                    read2 h1 h2, read2 n1 n2, read2 s1 s2) of
                (Some yy, Some mm, Some dd, Some hh, Some nn, Some ss) \<Rightarrow>
                  (let d = \<lparr>year = yy, month = mm, day = dd,
                            hour = hh, minute = nn, second = ss\<rparr>
                   in if valid_datetime d then Some d else None)
              | _ \<Rightarrow> None)
           else None)
      | _ \<Rightarrow> None)"

definition is_space :: "char \<Rightarrow> bool" where
  "is_space c = (c = CHR '' '' \<or> c = CHR 0x09 \<or> c = CHR 0x0A \<or> c = CHR 0x0B
                 \<or> c = CHR 0x0C \<or> c = CHR 0x0D)"

definition strip :: "string \<Rightarrow> string" where
  "strip s = rev (dropWhile is_space (rev (dropWhile is_space s)))"

section \<open>The transaction frame\<close>

text \<open>
  A data frame is the list of its rows, in index order. A cell that pandas shows as
  NaN, None or NaT is \<open>None\<close> (\<open>NaT\<close>, \<open>FlagNull\<close>). The column
  \<^verbatim>\<open>at\<close> holds text after \<^verbatim>\<open>read_csv\<close> and timestamps after
  \<^verbatim>\<open>pd.to_datetime\<close> or \<^verbatim>\<open>read_sql\<close>; amounts are exact
  rationals.
\<close>

datatype at_cell = NaT | AtStr string | AtTime datetime

datatype flag_cell = FlagNull | FlagInt int | FlagBool bool

record row =
  transaction_id :: "int option"
  at_col :: at_cell
  total_col :: "rat option"
  truck_id :: "int option"
  payment_method_id :: "int option"
  truck_name :: "string option"
  truck_description :: "string option"
  has_card_reader :: flag_cell
  fsa_rating :: "int option"
  payment_method :: "string option"

section \<open>transform.py\<close>

text \<open>
  \<^verbatim>\<open>pd.to_datetime(df['at'])\<close>. The parser of one text cell is a parameter
  \<open>parse\<close> (\<open>None\<close>: the text is not a timestamp); one unparseable cell
  fails the whole column with ValueError. Nulls become NaT, timestamps stay.
\<close>

definition to_datetime_cell :: "(string \<Rightarrow> datetime option) \<Rightarrow> at_cell \<Rightarrow> error + at_cell" where
  "to_datetime_cell parse c =
     (case c of
        NaT \<Rightarrow> Inr NaT
      | AtTime d \<Rightarrow> Inr (AtTime d)
      | AtStr s \<Rightarrow> (case parse s of None \<Rightarrow> Inl ValueError | Some d \<Rightarrow> Inr (AtTime d)))"

fun to_datetime :: "(string \<Rightarrow> datetime option) \<Rightarrow> row list \<Rightarrow> error + row list" where
  "to_datetime parse [] = Inr []"
| "to_datetime parse (r # rs) =
     (case to_datetime_cell parse (at_col r) of
        Inl e \<Rightarrow> Inl e
      | Inr c \<Rightarrow>
          (case to_datetime parse rs of
             Inl e \<Rightarrow> Inl e
           | Inr rs' \<Rightarrow> Inr (r\<lparr>at_col := c\<rparr> # rs')))"

text \<open>\<^verbatim>\<open>.astype(bool)\<close>: a number is true unless it is zero, and NaN is true.\<close>

definition astype_bool :: "flag_cell \<Rightarrow> flag_cell" where
  "astype_bool c =
     (case c of FlagNull \<Rightarrow> FlagBool True | FlagInt n \<Rightarrow> FlagBool (n \<noteq> 0) | FlagBool b \<Rightarrow> FlagBool b)"

text \<open>The columns of \<^verbatim>\<open>duplicate_check_cols\<close>.\<close>

definition duplicate_check_cols :: "row \<Rightarrow> at_cell \<times> int option \<times> int option \<times> rat option" where
  "duplicate_check_cols r = (at_col r, truck_id r, payment_method_id r, total_col r)"

text \<open>\<^verbatim>\<open>df[df.duplicated(subset=..., keep=False)]\<close>: every row whose key occurs more than once.\<close>

definition duplicated_rows :: "row list \<Rightarrow> row list" where
  "duplicated_rows df =
     filter (\<lambda>r. 1 < count_list (map duplicate_check_cols df) (duplicate_check_cols r)) df"

text \<open>\<^verbatim>\<open>df.drop_duplicates(subset=..., keep='first')\<close>, with the keys seen so far.\<close>

fun drop_duplicates_from ::
  "(at_cell \<times> int option \<times> int option \<times> rat option) list \<Rightarrow> row list \<Rightarrow> row list" where
  "drop_duplicates_from seen [] = []"
| "drop_duplicates_from seen (r # rs) =
     (if duplicate_check_cols r \<in> set seen then drop_duplicates_from seen rs
      else r # drop_duplicates_from (duplicate_check_cols r # seen) rs)"

definition drop_duplicates :: "row list \<Rightarrow> row list" where
  "drop_duplicates df = drop_duplicates_from [] df"

text \<open>\<^verbatim>\<open>df.dropna(subset=critical_columns)\<close>.\<close>

definition dropna :: "row list \<Rightarrow> row list" where
  "dropna df =
     filter (\<lambda>r. transaction_id r \<noteq> None \<and> at_col r \<noteq> NaT \<and> total_col r \<noteq> None \<and>
                 truck_id r \<noteq> None \<and> payment_method_id r \<noteq> None) df"

definition to_pounds :: "row \<Rightarrow> row" where
  "to_pounds r = r\<lparr>total_col := map_option (\<lambda>x. x / 100) (total_col r)\<rparr>"

definition clean_data :: "(string \<Rightarrow> datetime option) \<Rightarrow> row list \<Rightarrow> error + row list" where
  "clean_data parse df =
     (let df1 = filter (\<lambda>r. total_col r \<noteq> None) df;
          df2 = filter (\<lambda>r. total_col r \<noteq> Some 0) df1;
          df3 = map to_pounds df2
      in case to_datetime parse df3 of
           Inl e \<Rightarrow> Inl e
         | Inr df4 \<Rightarrow>
             (let df5 = map (\<lambda>r. r\<lparr>has_card_reader := astype_bool (has_card_reader r)\<rparr>) df4;
                  duplicates = duplicated_rows df5;
                  df6 = (if length duplicates > 0 then drop_duplicates df5 else df5)
              in Inr (dropna df6)))"

text \<open>What cleaning leaves in a row: the critical columns present, a parsed timestamp,
  a non-zero amount and a boolean flag.\<close>

definition cleaned_row :: "row \<Rightarrow> bool" where
  "cleaned_row r =
     (transaction_id r \<noteq> None \<and> (case at_col r of AtTime d \<Rightarrow> True | _ \<Rightarrow> False) \<and>
      (case total_col r of Some x \<Rightarrow> x \<noteq> 0 | None \<Rightarrow> False) \<and>
      truck_id r \<noteq> None \<and> payment_method_id r \<noteq> None \<and>
      (case has_card_reader r of FlagBool b \<Rightarrow> True | _ \<Rightarrow> False))"

text \<open>A row as \<^verbatim>\<open>read_csv\<close> delivers it, for the concrete checks below.\<close>

definition example_row :: row where
  "example_row =
     \<lparr>transaction_id = Some 2, at_col = AtStr ''2024-01-01T10:00:00'', total_col = Some 500,
      truck_id = Some 3, payment_method_id = Some 1, truck_name = Some ''Burrito Madness'',
      truck_description = None, has_card_reader = FlagInt 1, fsa_rating = Some 4,
      payment_method = Some ''card''\<rparr>"

definition example_time :: datetime where
  "example_time = \<lparr>year = 2024, month = 1, day = 1, hour = 10, minute = 0, second = 0\<rparr>"

section \<open>partition_transactions.py\<close>

text \<open>
  \<^verbatim>\<open>df['at'].dt.year\<close>, \<^verbatim>\<open>.dt.month\<close>, \<^verbatim>\<open>.dt.day\<close>: the three
  columns the partitioner adds to a row; they are NaN together, for NaT.
\<close>

definition date_parts :: "row \<Rightarrow> (nat \<times> nat \<times> nat) option" where
  "date_parts r = (case at_col r of AtTime d \<Rightarrow> Some (year d, month d, day d) | _ \<Rightarrow> None)"

text \<open>
  \<^verbatim>\<open>df.groupby([...])\<close> on a frame whose rows carry their key: the groups come in
  ascending key order, a row with a null key is in no group, and a group keeps the rows
  in frame order.
\<close>

definition groupby :: "('a \<times> 'k::linorder option) list \<Rightarrow> ('k \<times> ('a \<times> 'k option) list) list" where
  "groupby df =
     map (\<lambda>k. (k, filter (\<lambda>x. snd x = Some k) df)) (sort (remdups (List.map_filter snd df)))"

definition is_text :: "at_cell \<Rightarrow> bool" where
  "is_text c = (case c of AtStr s \<Rightarrow> True | _ \<Rightarrow> False)"

text \<open>
  The partitions \<^verbatim>\<open>partition_transactions\<close> writes, in the order it writes them,
  each with the rows of the group after \<^verbatim>\<open>group.drop(columns=['year', 'month', 'day'])\<close>;
  the count it returns is the length of this list. The \<^verbatim>\<open>.dt\<close> accessor raises
  AttributeError on a text column; with a NaT in the column the date columns are floating
  point and the folder name's \<^verbatim>\<open>{month:02d}\<close> raises ValueError at the first group.
\<close>

definition partition_transactions :: "row list \<Rightarrow> error + ((nat \<times> nat \<times> nat) \<times> row list) list" where
  "partition_transactions df =
     (if \<exists>r\<in>set df. is_text (at_col r) then Inl AttributeError
      else
        (let df' = map (\<lambda>r. (r, date_parts r)) df;
             grouped = groupby df'
         in if grouped \<noteq> [] \<and> (\<exists>r\<in>set df. at_col r = NaT) then Inl ValueError
            else Inr (map (\<lambda>(k, group). (k, map fst group)) grouped)))"


text \<open>Rows of two days, raw and cleaned, for the concrete checks below.\<close>

definition next_day_row :: row where
  "next_day_row = example_row\<lparr>transaction_id := Some 3, at_col := AtStr ''2024-01-02T09:30:00''\<rparr>"

definition next_day_time :: datetime where
  "next_day_time = \<lparr>year = 2024, month = 1, day = 2, hour = 9, minute = 30, second = 0\<rparr>"

definition cleaned_example :: row where
  "cleaned_example = example_row\<lparr>total_col := Some 5, at_col := AtTime example_time,
     has_card_reader := FlagBool True\<rparr>"

definition cleaned_next_day :: row where
  "cleaned_next_day = next_day_row\<lparr>total_col := Some 5, at_col := AtTime next_day_time,
     has_card_reader := FlagBool True\<rparr>"

section \<open>extract.py\<close>

text \<open>
  The source database: the fact table and the two dimension tables the query joins. The
  event time \<^verbatim>\<open>ft.at\<close> and the keys are not null; the amount and the descriptive
  attributes may be.
\<close>

record fact_transaction =
  ft_transaction_id :: int
  ft_at :: datetime
  ft_total :: "int option"
  ft_truck_id :: int
  ft_payment_method_id :: int

record dim_truck =
  dt_truck_id :: int
  dt_truck_name :: "string option"
  dt_truck_description :: "string option"
  dt_has_card_reader :: "int option"
  dt_fsa_rating :: "int option"

record dim_payment_method =
  pm_payment_method_id :: int
  pm_payment_method :: "string option"

record database =
  FACT_Transaction :: "fact_transaction list"
  DIM_Truck :: "dim_truck list"
  DIM_Payment_Method :: "dim_payment_method list"

text \<open>One row of the SELECT list, as \<^verbatim>\<open>pd.read_sql\<close> delivers it.\<close>

definition select_row :: "fact_transaction \<Rightarrow> dim_truck \<Rightarrow> dim_payment_method \<Rightarrow> row" where
  "select_row ft dt pm =
     \<lparr>transaction_id = Some (ft_transaction_id ft), at_col = AtTime (ft_at ft),
      total_col = map_option of_int (ft_total ft), truck_id = Some (ft_truck_id ft),
      payment_method_id = Some (ft_payment_method_id ft), truck_name = dt_truck_name dt,
      truck_description = dt_truck_description dt,
      has_card_reader = (case dt_has_card_reader dt of None \<Rightarrow> FlagNull | Some n \<Rightarrow> FlagInt n),
      fsa_rating = dt_fsa_rating dt, payment_method = pm_payment_method pm\<rparr>"

text \<open>The two inner joins, for one fact row.\<close>

definition join_dimensions :: "database \<Rightarrow> fact_transaction \<Rightarrow> row list" where
  "join_dimensions d ft =
     concat (map (\<lambda>dt. map (select_row ft dt)
                   (filter (\<lambda>pm. ft_payment_method_id ft = pm_payment_method_id pm)
                      (DIM_Payment_Method d)))
               (filter (\<lambda>dt. ft_truck_id ft = dt_truck_id dt) (DIM_Truck d)))"

text \<open>
  \<^verbatim>\<open>WHERE ft.at > '{since_timestamp}'\<close>: the database reads the literal as a
  timestamp; a literal that is none compares as NULL and selects nothing.
\<close>

definition where_at_after :: "string \<Rightarrow> fact_transaction \<Rightarrow> bool" where
  "where_at_after since_timestamp ft =
     (case fromisoformat since_timestamp of
        None \<Rightarrow> False
      | Some t \<Rightarrow> dt_key t < dt_key (ft_at ft))"

text \<open>
  \<^verbatim>\<open>if since_timestamp:\<close> is false for None and for the empty string; then the
  query has no WHERE clause.
\<close>

definition selected :: "string option \<Rightarrow> fact_transaction \<Rightarrow> bool" where
  "selected since_timestamp ft =
     (case since_timestamp of
        None \<Rightarrow> True
      | Some s \<Rightarrow> (if s \<noteq> [] then where_at_after s ft else True))"

text \<open>
  The query: the selected fact rows in ascending order of \<^verbatim>\<open>ft.at\<close> (rows of
  one instant in table order), each with its dimension rows.
\<close>

definition extract_data :: "database \<Rightarrow> string option \<Rightarrow> row list" where
  "extract_data d since_timestamp =
     concat (map (join_dimensions d)
       (sort_key (\<lambda>ft. dt_key (ft_at ft)) (filter (selected since_timestamp) (FACT_Transaction d))))"

text \<open>
  What a run can see and change: the database, the state file in S3, the two local CSV
  files, the local parquet files (by partition and, for the dimensions, as one pair of
  files), the files of the S3 dataset, and the record of what the run did: each write of
  the state file and each later stage that \<^verbatim>\<open>pipeline.py\<close> starts.
\<close>

datatype event = SavedTimestamp string | StartedTransform | StartedPartition | StartedUpload

record world =
  db :: database
  state_file :: "string option"
  transactions_csv :: "row list option"
  cleaned_csv :: "row list option"
  dimension_files ::
    "((int option \<times> string option \<times> string option \<times> flag_cell \<times> int option) list \<times>
      (int option \<times> string option) list) option"
  partition_files :: "(nat \<times> nat \<times> nat) \<rightharpoonup> row list"
  lake :: "((nat \<times> nat \<times> nat) \<times> row list) list"
  events :: "event list"

text \<open>
  What the services do to a run: the state file cannot be read (a ClientError other than
  NoSuchKey), the state file cannot be written, the upload fails at the partition of the
  given index. The database and the local file system are taken to answer.
\<close>

record faults =
  state_read_error :: bool
  state_write_error :: bool
  upload_error_at :: "nat option"

definition get_last_processed_timestamp :: "faults \<Rightarrow> world \<Rightarrow> error + string option" where
  "get_last_processed_timestamp f w =
     (if state_read_error f then Inl ClientError
      else
        (case state_file w of
           None \<Rightarrow> Inr None
         | Some body \<Rightarrow>
             (case fromisoformat (strip body) of
                None \<Rightarrow> Inl ValueError
              | Some dt \<Rightarrow>
                  (case plus_one_second dt of
                     Inl e \<Rightarrow> Inl e
                   | Inr dt' \<Rightarrow> Inr (Some (strftime dt'))))))"

definition save_last_processed_timestamp :: "faults \<Rightarrow> string \<Rightarrow> world \<Rightarrow> (error + unit) \<times> world" where
  "save_last_processed_timestamp f timestamp w =
     (if state_write_error f then (Inl ClientError, w)
      else (Inr (), w\<lparr>state_file := Some timestamp,
                       events := events w @ [SavedTimestamp timestamp]\<rparr>))"

text \<open>
  \<^verbatim>\<open>to_csv\<close> followed by \<^verbatim>\<open>read_csv\<close>: a timestamp comes back as its text.
\<close>

definition to_csv :: "row list \<Rightarrow> row list" where
  "to_csv df =
     map (\<lambda>r. r\<lparr>at_col := (case at_col r of AtTime d \<Rightarrow> AtStr (strftime d) | c \<Rightarrow> c)\<rparr>) df"

definition save_data :: "row list \<Rightarrow> world \<Rightarrow> world" where
  "save_data dataframe w = w\<lparr>transactions_csv := Some (to_csv dataframe)\<rparr>"

definition row_time :: "row \<Rightarrow> datetime option" where
  "row_time r = (case at_col r of AtTime d \<Rightarrow> Some d | _ \<Rightarrow> None)"

definition dt_max :: "datetime \<Rightarrow> datetime \<Rightarrow> datetime" where
  "dt_max a b = (if dt_key a < dt_key b then b else a)"

text \<open>\<^verbatim>\<open>df['at'].max()\<close> on a timestamp column (nulls skipped), and \<^verbatim>\<open>str\<close> of it.\<close>

definition series_max :: "row list \<Rightarrow> at_cell" where
  "series_max df =
     (case List.map_filter row_time df of
        [] \<Rightarrow> NaT
      | d # ds \<Rightarrow> AtTime (foldl dt_max d ds))"

definition str_timestamp :: "at_cell \<Rightarrow> string" where
  "str_timestamp c = (case c of NaT \<Rightarrow> ''NaT'' | AtStr s \<Rightarrow> s | AtTime d \<Rightarrow> strftime d)"

definition main_extract :: "faults \<Rightarrow> world \<Rightarrow> (error + nat) \<times> world" where
  "main_extract f w =
     (case get_last_processed_timestamp f w of
        Inl e \<Rightarrow> (Inl e, w)
      | Inr last_timestamp \<Rightarrow>
          (let transactions_df = extract_data (db w) last_timestamp
           in if length transactions_df > 0 then
                (let w1 = save_data transactions_df w;
                     latest_timestamp = series_max transactions_df
                 in case save_last_processed_timestamp f (str_timestamp latest_timestamp) w1 of
                      (Inl e, w2) \<Rightarrow> (Inl e, w2)
                    | (Inr u, w2) \<Rightarrow> (Inr (length transactions_df), w2))
              else (Inr (length transactions_df), w)))"

section \<open>The stages after extraction\<close>

definition load_data :: "world \<Rightarrow> error + row list" where
  "load_data w = (case transactions_csv w of None \<Rightarrow> Inl FileNotFoundError | Some df \<Rightarrow> Inr df)"

definition save_cleaned_data :: "row list \<Rightarrow> world \<Rightarrow> world" where
  "save_cleaned_data df w = w\<lparr>cleaned_csv := Some (to_csv df)\<rparr>"

definition main_transform :: "(string \<Rightarrow> datetime option) \<Rightarrow> world \<Rightarrow> (error + nat) \<times> world" where
  "main_transform parse w =
     (case load_data w of
        Inl e \<Rightarrow> (Inl e, w)
      | Inr df \<Rightarrow>
          (case clean_data parse df of
             Inl e \<Rightarrow> (Inl e, w)
           | Inr df_cleaned \<Rightarrow> (Inr (length df_cleaned), save_cleaned_data df_cleaned w)))"

definition load_cleaned_data :: "(string \<Rightarrow> datetime option) \<Rightarrow> world \<Rightarrow> error + row list" where
  "load_cleaned_data parse w =
     (case cleaned_csv w of None \<Rightarrow> Inl FileNotFoundError | Some df \<Rightarrow> to_datetime parse df)"

text \<open>\<^verbatim>\<open>.drop_duplicates()\<close> on whole rows: the first occurrence of each stays.\<close>

definition keep_first :: "'a list \<Rightarrow> 'a list" where
  "keep_first xs = rev (remdups (rev xs))"

definition extract_dimension_tables ::
  "row list \<Rightarrow> (int option \<times> string option \<times> string option \<times> flag_cell \<times> int option) list \<times>
     (int option \<times> string option) list" where
  "extract_dimension_tables df =
     (keep_first (map (\<lambda>r. (truck_id r, truck_name r, truck_description r,
                              has_card_reader r, fsa_rating r)) df),
      keep_first (map (\<lambda>r. (payment_method_id r, payment_method r)) df))"

text \<open>
  A partition is written to the one file of its folder
  \<^verbatim>\<open>year=Y/month=MM/day=DD/transactions.parquet\<close>, replacing what was there.
\<close>

definition write_partitions ::
  "((nat \<times> nat \<times> nat) \<times> row list) list \<Rightarrow> ((nat \<times> nat \<times> nat) \<rightharpoonup> row list) \<Rightarrow>
     ((nat \<times> nat \<times> nat) \<rightharpoonup> row list)" where
  "write_partitions groups files = foldl (\<lambda>fs (k, g). fs(k \<mapsto> g)) files groups"

definition main_partition_transactions ::
  "(string \<Rightarrow> datetime option) \<Rightarrow> world \<Rightarrow> (error + nat) \<times> world" where
  "main_partition_transactions parse w =
     (case load_cleaned_data parse w of
        Inl e \<Rightarrow> (Inl e, w)
      | Inr df \<Rightarrow>
          (let w1 = w\<lparr>dimension_files := Some (extract_dimension_tables df)\<rparr>
           in case partition_transactions df of
                Inl e \<Rightarrow> (Inl e, w1)
              | Inr groups \<Rightarrow>
                  (Inr (length groups),
                   w1\<lparr>partition_files := write_partitions groups (partition_files w1)\<rparr>)))"

section \<open>load.py\<close>

text \<open>
  \<^verbatim>\<open>wr.s3.to_parquet(..., dataset=True, partition_cols=['year', 'month', 'day'],
  mode='append')\<close>: one new file per date of the batch, beside the files already in the
  dataset; the library refuses an empty frame with EmptyDataFrame. The cleaned file holds
  no row without a timestamp; such a row would be in no group here. When the service
  fails at a partition, the partitions before it are written.
\<close>

definition upload_partitioned_transactions ::
  "faults \<Rightarrow> (string \<Rightarrow> datetime option) \<Rightarrow> world \<Rightarrow> (error + unit) \<times> world" where
  "upload_partitioned_transactions f parse w =
     (case load_cleaned_data parse w of
        Inl e \<Rightarrow> (Inl e, w)
      | Inr df \<Rightarrow>
          (if df = [] then (Inl EmptyDataFrame, w)
           else
             (let groups = map (\<lambda>(k, group). (k, map fst group))
                             (groupby (map (\<lambda>r. (r, date_parts r)) df))
              in case upload_error_at f of
                   None \<Rightarrow> (Inr (), w\<lparr>lake := lake w @ groups\<rparr>)
                 | Some i \<Rightarrow>
                     (if i < length groups
                      then (Inl UploadError, w\<lparr>lake := lake w @ take i groups\<rparr>)
                      else (Inr (), w\<lparr>lake := lake w @ groups\<rparr>)))))"

text \<open>
  \<^verbatim>\<open>upload_transaction_data(upload_dimensions=False)\<close>: the dimension upload is
  skipped, the listing of \<^verbatim>\<open>verify_upload\<close> changes nothing, and the handler
  catches NotImplementedError only.
\<close>

definition upload_transaction_data ::
  "faults \<Rightarrow> (string \<Rightarrow> datetime option) \<Rightarrow> world \<Rightarrow> (error + unit) \<times> world" where
  "upload_transaction_data f parse w =
     (case upload_partitioned_transactions f parse w of
        (Inl NotImplementedError, w') \<Rightarrow> (Inr (), w')
      | (Inl e, w') \<Rightarrow> (Inl e, w')
      | (Inr u, w') \<Rightarrow> (Inr (), w'))"

section \<open>pipeline.py\<close>

definition log_event :: "event \<Rightarrow> world \<Rightarrow> world" where
  "log_event e w = w\<lparr>events := events w @ [e]\<rparr>"

definition pipeline :: "faults \<Rightarrow> (string \<Rightarrow> datetime option) \<Rightarrow> world \<Rightarrow> (error + unit) \<times> world" where
  "pipeline f parse w =
     (case main_extract f w of
        (Inl e, w1) \<Rightarrow> (Inl e, w1)
      | (Inr rows_extracted, w1) \<Rightarrow>
          (if rows_extracted = 0 then (Inr (), w1)
           else
             (case main_transform parse (log_event StartedTransform w1) of
                (Inl e, w2) \<Rightarrow> (Inl e, w2)
              | (Inr n, w2) \<Rightarrow>
                  (case main_partition_transactions parse (log_event StartedPartition w2) of
                     (Inl e, w3) \<Rightarrow> (Inl e, w3)
                   | (Inr total_partitions, w3) \<Rightarrow>
                       upload_transaction_data f parse (log_event StartedUpload w3)))))"

section \<open>generate_report.py\<close>

text \<open>A column of amounts: \<^verbatim>\<open>.sum()\<close>, \<^verbatim>\<open>.count()\<close> and \<^verbatim>\<open>.mean()\<close> skip nulls;
  the mean of no value is NaN (\<open>None\<close>).\<close>

definition series_sum :: "row list \<Rightarrow> rat" where
  "series_sum df = sum_list (List.map_filter total_col df)"

definition series_count :: "row list \<Rightarrow> nat" where
  "series_count df = length (List.map_filter total_col df)"

definition series_mean :: "row list \<Rightarrow> rat option" where
  "series_mean df =
     (if series_count df = 0 then None else Some (series_sum df / of_nat (series_count df)))"

text \<open>\<^verbatim>\<open>.round(2)\<close>: to the nearest hundredth, a tie to the even one.\<close>

definition round2 :: "rat \<Rightarrow> rat" where
  "round2 x =
     (let y = x * 100; n = \<lfloor>y\<rfloor>
      in if y - of_int n < 1 / 2 then of_int n / 100
         else if 1 / 2 < y - of_int n then of_int (n + 1) / 100
         else if even n then of_int n / 100 else of_int (n + 1) / 100)"

text \<open>\<^verbatim>\<open>df.groupby(column)\<close>: the groups by ascending key with their rows in frame order;
  a row with a null key is in no group.\<close>

definition groupby_col :: "(row \<Rightarrow> 'k::linorder option) \<Rightarrow> row list \<Rightarrow> ('k \<times> row list) list" where
  "groupby_col col df =
     map (\<lambda>(k, group). (k, map fst group)) (groupby (map (\<lambda>r. (r, col r)) df))"

record truck_entry =
  t_name :: string
  t_revenue :: rat
  t_transactions :: nat
  t_avg_transaction :: "rat option"

record payment_entry =
  m_count :: nat
  m_revenue :: rat
  m_percentage :: rat
  m_processing_cost :: rat

text \<open>
  The dictionary \<^verbatim>\<open>calculate_metrics\<close> returns. The keys
  \<^verbatim>\<open>total_card_costs\<close> and \<^verbatim>\<open>net_revenue\<close> are \<open>None\<close> when the
  dictionary does not have them; \<^verbatim>\<open>average_transaction\<close> is \<open>None\<close> when it is
  NaN. \<^verbatim>\<open>payment_methods\<close> is the inner dictionary in insertion order.
\<close>

record metrics =
  date :: string
  total_revenue :: rat
  total_transactions :: nat
  best_truck :: string
  best_truck_revenue :: rat
  worst_truck :: string
  worst_truck_revenue :: rat
  payment_methods :: "(string \<times> payment_entry) list"
  average_transaction :: "rat option"
  all_trucks :: "truck_entry list"
  total_card_costs :: "rat option"
  net_revenue :: "rat option"

text \<open>\<^verbatim>\<open>method.lower()\<close> on ASCII letters, and \<^verbatim>\<open>'card' in ...\<close>.\<close>

definition lower_char :: "char \<Rightarrow> char" where
  "lower_char c = (if CHR ''A'' \<le> c \<and> c \<le> CHR ''Z'' then char_of (of_char c + (32 :: nat)) else c)"

definition lower :: "string \<Rightarrow> string" where
  "lower s = map lower_char s"

fun contains :: "string \<Rightarrow> string \<Rightarrow> bool" where
  "contains sub [] = (sub = [])"
| "contains sub (c # cs) = (take (length sub) (c # cs) = sub \<or> contains sub cs)"

definition CARD_FEE_RATE :: rat where
  "CARD_FEE_RATE = 2 / 100"

text \<open>
  The per-truck table: sum, count and mean of each group, rounded, in descending order
  of the revenue (trucks of one revenue in name order).
\<close>

definition truck_stats :: "row list \<Rightarrow> truck_entry list" where
  "truck_stats df =
     sort_key (\<lambda>t. - t_revenue t)
       (map (\<lambda>(k, g). \<lparr>t_name = k, t_revenue = round2 (series_sum g),
                         t_transactions = series_count g,
                         t_avg_transaction = map_option round2 (series_mean g)\<rparr>)
          (groupby_col truck_name df))"

definition payment_entry_of :: "rat \<Rightarrow> string \<Rightarrow> row list \<Rightarrow> payment_entry" where
  "payment_entry_of total_rev method g =
     \<lparr>m_count = series_count g, m_revenue = series_sum g,
      m_percentage = (if total_rev > 0 then series_sum g / total_rev * 100 else 0),
      m_processing_cost = (if contains ''card'' (lower method) then series_sum g * CARD_FEE_RATE else 0)\<rparr>"

text \<open>The date of the report, \<^verbatim>\<open>get_yesterday_date()\<close>, is the parameter \<open>yesterday\<close>.\<close>

definition calculate_metrics :: "string \<Rightarrow> row list \<Rightarrow> error + metrics" where
  "calculate_metrics yesterday df =
     (if df = [] then
        Inr \<lparr>date = yesterday, total_revenue = 0, total_transactions = 0,
             best_truck = ''N/A'', best_truck_revenue = 0,
             worst_truck = ''N/A'', worst_truck_revenue = 0,
             payment_methods = [], average_transaction = Some 0, all_trucks = [],
             total_card_costs = None, net_revenue = None\<rparr>
      else
        (let total_rev = series_sum df;
             stats = truck_stats df
         in case stats of
              [] \<Rightarrow> Inl IndexError
            | best # others \<Rightarrow>
                (let worst = last stats;
                     methods = map (\<lambda>(method, g). (method, payment_entry_of total_rev method g))
                                 (groupby_col payment_method df);
                     card_costs = sum_list (map (\<lambda>(method, e). m_processing_cost e) methods)
                 in Inr \<lparr>date = yesterday, total_revenue = total_rev,
                         total_transactions = length df,
                         best_truck = t_name best, best_truck_revenue = t_revenue best,
                         worst_truck = t_name worst, worst_truck_revenue = t_revenue worst,
                         payment_methods = methods, average_transaction = series_mean df,
                         all_trucks = stats, total_card_costs = Some card_costs,
                         net_revenue = Some (total_rev - card_costs)\<rparr>)))"

section \<open>Notions the properties use\<close>

text \<open>Ascending order of the event time, between two rows that both have one.\<close>

definition at_le :: "row \<Rightarrow> row \<Rightarrow> bool" where
  "at_le r r' =
     (case (row_time r, row_time r') of
        (Some a, Some b) \<Rightarrow> dt_key a \<le> dt_key b
      | _ \<Rightarrow> False)"

text \<open>A database, a service without faults and the state before two runs, for the concrete checks.\<close>

definition example_db :: database where
  "example_db =
     \<lparr>FACT_Transaction =
        [\<lparr>ft_transaction_id = 3, ft_at = next_day_time, ft_total = Some 500,
          ft_truck_id = 3, ft_payment_method_id = 1\<rparr>,
         \<lparr>ft_transaction_id = 2, ft_at = example_time, ft_total = Some 500,
          ft_truck_id = 3, ft_payment_method_id = 1\<rparr>],
      DIM_Truck =
        [\<lparr>dt_truck_id = 3, dt_truck_name = Some ''Burrito Madness'', dt_truck_description = None,
          dt_has_card_reader = Some 1, dt_fsa_rating = Some 4\<rparr>],
      DIM_Payment_Method =
        [\<lparr>pm_payment_method_id = 1, pm_payment_method = Some ''card''\<rparr>]\<rparr>"

definition no_faults :: faults where
  "no_faults = \<lparr>state_read_error = False, state_write_error = False, upload_error_at = None\<rparr>"

definition first_run_world :: world where
  "first_run_world =
     \<lparr>db = example_db, state_file = None, transactions_csv = None, cleaned_csv = None,
      dimension_files = None, partition_files = Map.empty, lake = [], events = []\<rparr>"



text \<open>The record of a write of the state file.\<close>

definition is_saved :: "event \<Rightarrow> bool" where
  "is_saved e = (case e of SavedTimestamp s \<Rightarrow> True | _ \<Rightarrow> False)"

text \<open>
  The state file as the pipeline leaves it: absent, or the text of a timestamp of the
  calendar in the spelling \<^verbatim>\<open>save_last_processed_timestamp\<close> writes.
\<close>

definition stored_ok :: "string option \<Rightarrow> bool" where
  "stored_ok s =
     (case s of
        None \<Rightarrow> True
      | Some body \<Rightarrow>
          (case fromisoformat body of
             None \<Rightarrow> False
           | Some W \<Rightarrow> valid_datetime W \<and> body = strftime W))"

text \<open>Every event time of the fact table is a timestamp of the calendar.\<close>

definition valid_db :: "database \<Rightarrow> bool" where
  "valid_db d = (\<forall>ft\<in>set (FACT_Transaction d). valid_datetime (ft_at ft))"

text \<open>The order of two contents of the state file: no watermark is below every watermark.\<close>

definition watermark_le :: "string option \<Rightarrow> string option \<Rightarrow> bool" where
  "watermark_le a b =
     (case a of
        None \<Rightarrow> True
      | Some x \<Rightarrow>
          (case b of
             None \<Rightarrow> False
           | Some y \<Rightarrow>
               (case (fromisoformat x, fromisoformat y) of
                  (Some s, Some t) \<Rightarrow> dt_key s \<le> dt_key t
                | _ \<Rightarrow> False)))"

text \<open>
  The contents of the state file before a sequence of runs and after each of them; every
  run meets its own faults and its own state of the database.
\<close>

fun history :: "(string \<Rightarrow> datetime option) \<Rightarrow> (faults \<times> database) list \<Rightarrow> world \<Rightarrow> string option list" where
  "history parse [] w = [state_file w]"
| "history parse ((f, d) # runs) w =
     state_file w # history parse runs (snd (pipeline f parse (w\<lparr>db := d\<rparr>)))"

text \<open>More concrete inputs: an upload that fails at the first partition, a state file that is up to date, a later state of the database.\<close>

definition upload_fault :: faults where
  "upload_fault = \<lparr>state_read_error = False, state_write_error = False, upload_error_at = Some 0\<rparr>"

definition caught_up_world :: world where
  "caught_up_world = first_run_world\<lparr>state_file := Some ''2024-01-02 09:30:00''\<rparr>"

definition later_db :: database where
  "later_db = example_db\<lparr>FACT_Transaction :=
     \<lparr>ft_transaction_id = 4, ft_at = next_day_time\<lparr>day := 3\<rparr>, ft_total = Some 250,
      ft_truck_id = 3, ft_payment_method_id = 1\<rparr> # FACT_Transaction example_db\<rparr>"

text \<open>The amount of a row in a sum, the total of the percentages of a report, and two
  day frames for the concrete checks: one with every payment method named, one without.\<close>

definition amount :: "row \<Rightarrow> rat" where
  "amount r = (case total_col r of None \<Rightarrow> 0 | Some x \<Rightarrow> x)"

definition percentage_total :: "metrics \<Rightarrow> rat" where
  "percentage_total m = sum_list (map (\<lambda>(method, e). m_percentage e) (payment_methods m))"

definition report_rows :: "row list" where
  "report_rows =
     [cleaned_example, cleaned_next_day\<lparr>total_col := Some 10, payment_method := Some ''cash''\<rparr>]"

definition unnamed_method_rows :: "row list" where
  "unnamed_method_rows =
     [cleaned_example, cleaned_next_day\<lparr>total_col := Some 10, payment_method := None\<rparr>]"

section \<open>Theorems about timestamps\<close>

lemma digit_val_digit_char: "n < 10 \<Longrightarrow> digit_val (digit_char n) = Some n"
  by (simp add: digit_val_def digit_char_def less_eq_char_def)

lemma two_digits_read:
  assumes "n < 100"
  obtains a b where "two_digits n = [a, b]" and "read2 a b = Some n"
proof -
  have "n div 10 mod 10 = n div 10" using assms by simp
  then have "read2 (digit_char (n div 10 mod 10)) (digit_char (n mod 10)) = Some n"
    by (simp add: read2_def digit_val_digit_char)
  then show thesis
    using that [of "digit_char (n div 10 mod 10)" "digit_char (n mod 10)"]
    by (simp add: two_digits_def)
qed

lemma four_digits_read:
  assumes "n < 10000"
  obtains a b c e where "four_digits n = [a, b, c, e]" and "read4 a b c e = Some n"
proof -
  have hi: "n div 100 < 100" using assms by simp
  have lo: "n mod 100 < 100" by simp
  obtain a b where ab: "two_digits (n div 100) = [a, b]" "read2 a b = Some (n div 100)"
    using two_digits_read [OF hi] by blast
  obtain c e where ce: "two_digits (n mod 100) = [c, e]" "read2 c e = Some (n mod 100)"
    using two_digits_read [OF lo] by blast
  have "read4 a b c e = Some n"
    by (simp add: read4_def ab ce)
  then show thesis
    using that [of a b c e] by (simp add: four_digits_def ab ce)
qed

lemma days_in_month_le: "days_in_month y m \<le> 31"
  by (simp add: days_in_month_def)

lemma fromisoformat_strftime:
  assumes "valid_datetime d"
  shows "fromisoformat (strftime d) = Some d"
proof -
  from assms have y: "year d < 10000" and m: "month d < 100" and h: "hour d < 100"
    and n: "minute d < 100" and s: "second d < 100"
    by (simp_all add: valid_datetime_def)
  from assms days_in_month_le [of "year d" "month d"] have dd: "day d < 100"
    by (simp add: valid_datetime_def)
  obtain y1 y2 y3 y4 where ys: "four_digits (year d) = [y1, y2, y3, y4]"
    "read4 y1 y2 y3 y4 = Some (year d)"
    using four_digits_read [OF y] by blast
  obtain m1 m2 where ms: "two_digits (month d) = [m1, m2]" "read2 m1 m2 = Some (month d)"
    using two_digits_read [OF m] by blast
  obtain d1 d2 where ds: "two_digits (day d) = [d1, d2]" "read2 d1 d2 = Some (day d)"
    using two_digits_read [OF dd] by blast
  obtain h1 h2 where hs: "two_digits (hour d) = [h1, h2]" "read2 h1 h2 = Some (hour d)"
    using two_digits_read [OF h] by blast
  obtain n1 n2 where ns: "two_digits (minute d) = [n1, n2]" "read2 n1 n2 = Some (minute d)"
    using two_digits_read [OF n] by blast
  obtain s1 s2 where ss: "two_digits (second d) = [s1, s2]" "read2 s1 s2 = Some (second d)"
    using two_digits_read [OF s] by blast
  have shape: "strftime d = [y1, y2, y3, y4, CHR ''-'', m1, m2, CHR ''-'', d1, d2, CHR '' '',
      h1, h2, CHR '':'', n1, n2, CHR '':'', s1, s2]"
    by (simp add: strftime_def ys ms ds hs ns ss)
  have eta: "\<lparr>year = year d, month = month d, day = day d,
              hour = hour d, minute = minute d, second = second d\<rparr> = d"
    by simp
  show ?thesis
    using assms
    by (simp add: shape fromisoformat_def ys ms ds hs ns ss Let_def eta)
qed

section \<open>Theorems about cleaning\<close>

lemma cleaned_row_iff:
  "cleaned_row r \<longleftrightarrow>
     (\<exists>i d x t p b. transaction_id r = Some i \<and> at_col r = AtTime d \<and> total_col r = Some x \<and>
        x \<noteq> 0 \<and> truck_id r = Some t \<and> payment_method_id r = Some p \<and>
        has_card_reader r = FlagBool b)"
  by (cases "at_col r"; cases "total_col r"; cases "has_card_reader r")
    (auto simp: cleaned_row_def)

lemma to_datetime_rows:
  "to_datetime parse rs = Inr rs' \<Longrightarrow> r' \<in> set rs' \<Longrightarrow>
     (\<forall>s. at_col r' \<noteq> AtStr s) \<and> (\<exists>r\<in>set rs. r' = r\<lparr>at_col := at_col r'\<rparr>)"
proof (induction rs arbitrary: rs')
  case Nil
  then show ?case by simp
next
  case (Cons a rs)
  from Cons.prems(1) obtain c tl' where
    c: "to_datetime_cell parse (at_col a) = Inr c" and
    tl: "to_datetime parse rs = Inr tl'" and
    rs': "rs' = a\<lparr>at_col := c\<rparr> # tl'"
    by (auto split: sum.splits)
  from c have noStr: "\<forall>s. c \<noteq> AtStr s"
    by (auto simp: to_datetime_cell_def split: at_cell.splits option.splits)
  show ?case
  proof (cases "r' = a\<lparr>at_col := c\<rparr>")
    case True
    then show ?thesis using noStr by simp
  next
    case False
    with Cons.prems(2) rs' have "r' \<in> set tl'" by simp
    from Cons.IH [OF tl this] show ?thesis by auto
  qed
qed

lemma to_datetime_parsed:
  "\<forall>r\<in>set rs. \<exists>d. at_col r = AtTime d \<Longrightarrow> to_datetime parse rs = Inr rs"
  by (induction rs) (auto simp: to_datetime_cell_def)

lemma drop_duplicates_from_subset: "set (drop_duplicates_from seen rs) \<subseteq> set rs"
  by (induction rs arbitrary: seen) auto

lemma drop_duplicates_from_fresh:
  "r \<in> set (drop_duplicates_from seen rs) \<Longrightarrow> duplicate_check_cols r \<notin> set seen"
proof (induction rs arbitrary: seen)
  case Nil
  then show ?case by simp
next
  case (Cons a rs)
  show ?case
  proof (cases "duplicate_check_cols a \<in> set seen")
    case True
    with Cons.prems have "r \<in> set (drop_duplicates_from seen rs)" by simp
    then show ?thesis by (rule Cons.IH)
  next
    case False
    with Cons.prems consider "r = a"
      | "r \<in> set (drop_duplicates_from (duplicate_check_cols a # seen) rs)"
      by auto
    then show ?thesis
    proof cases
      case 1
      with False show ?thesis by simp
    next
      case 2
      from Cons.IH [OF 2] show ?thesis by simp
    qed
  qed
qed

lemma drop_duplicates_from_distinct:
  "distinct (map duplicate_check_cols (drop_duplicates_from seen rs))"
proof (induction rs arbitrary: seen)
  case Nil
  then show ?case by simp
next
  case (Cons a rs)
  have "duplicate_check_cols a \<notin>
      duplicate_check_cols ` set (drop_duplicates_from (duplicate_check_cols a # seen) rs)"
  proof
    assume "duplicate_check_cols a \<in>
      duplicate_check_cols ` set (drop_duplicates_from (duplicate_check_cols a # seen) rs)"
    then obtain r where r: "r \<in> set (drop_duplicates_from (duplicate_check_cols a # seen) rs)"
      and k: "duplicate_check_cols a = duplicate_check_cols r"
      by auto
    from drop_duplicates_from_fresh [OF r] k show False by simp
  qed
  with Cons.IH show ?case by simp
qed

lemma count_list_le_1_distinct:
  "\<forall>x\<in>set xs. count_list xs x \<le> 1 \<Longrightarrow> distinct xs"
proof (induction xs)
  case Nil
  then show ?case by simp
next
  case (Cons a xs)
  from Cons.prems have "count_list xs a = 0" by simp
  then have a: "a \<notin> set xs" by (simp add: count_list_0_iff)
  have "\<forall>x\<in>set xs. count_list xs x \<le> 1"
  proof
    fix x assume x: "x \<in> set xs"
    with Cons.prems have "count_list (a # xs) x \<le> 1" by simp
    then show "count_list xs x \<le> 1" by (simp split: if_splits)
  qed
  with Cons.IH a show ?case by simp
qed

lemma distinct_count_list_1: "distinct xs \<Longrightarrow> x \<in> set xs \<Longrightarrow> count_list xs x = 1"
  by (induction xs) auto

lemma duplicated_rows_empty_iff:
  "duplicated_rows df = [] \<longleftrightarrow> distinct (map duplicate_check_cols df)"
proof
  assume e: "duplicated_rows df = []"
  have "\<forall>x\<in>set (map duplicate_check_cols df). count_list (map duplicate_check_cols df) x \<le> 1"
  proof
    fix x assume "x \<in> set (map duplicate_check_cols df)"
    then obtain r where r: "r \<in> set df" "x = duplicate_check_cols r" by auto
    from e r(1) have "\<not> 1 < count_list (map duplicate_check_cols df) (duplicate_check_cols r)"
      by (auto simp: duplicated_rows_def filter_empty_conv)
    with r(2) show "count_list (map duplicate_check_cols df) x \<le> 1" by simp
  qed
  then show "distinct (map duplicate_check_cols df)" by (rule count_list_le_1_distinct)
next
  assume d: "distinct (map duplicate_check_cols df)"
  show "duplicated_rows df = []"
    unfolding duplicated_rows_def filter_empty_conv
  proof
    fix r assume "r \<in> set df"
    then have "duplicate_check_cols r \<in> set (map duplicate_check_cols df)" by simp
    from distinct_count_list_1 [OF d this]
    show "\<not> 1 < count_list (map duplicate_check_cols df) (duplicate_check_cols r)" by simp
  qed
qed


lemma astype_bool_is_bool: "\<exists>b. astype_bool c = FlagBool b"
  by (cases c) (auto simp: astype_bool_def)

lemma clean_data_unfold:
  assumes "clean_data parse df = Inr out"
  obtains df4 df6 where
    "to_datetime parse (map to_pounds (filter (\<lambda>r. total_col r \<noteq> Some 0)
        (filter (\<lambda>r. total_col r \<noteq> None) df))) = Inr df4"
    and "out = dropna df6"
    and "set df6 \<subseteq> set (map (\<lambda>r. r\<lparr>has_card_reader := astype_bool (has_card_reader r)\<rparr>) df4)"
    and "distinct (map duplicate_check_cols df6)"
proof -
  let ?df3 = "map to_pounds (filter (\<lambda>r. total_col r \<noteq> Some 0) (filter (\<lambda>r. total_col r \<noteq> None) df))"
  from assms obtain df4 where df4: "to_datetime parse ?df3 = Inr df4"
    by (auto simp: clean_data_def Let_def split: sum.splits)
  let ?df5 = "map (\<lambda>r. r\<lparr>has_card_reader := astype_bool (has_card_reader r)\<rparr>) df4"
  let ?df6 = "if length (duplicated_rows ?df5) > 0 then drop_duplicates ?df5 else ?df5"
  from assms df4 have out: "out = dropna ?df6"
    by (simp add: clean_data_def Let_def)
  have sub: "set ?df6 \<subseteq> set ?df5"
    using drop_duplicates_from_subset [of "[]" ?df5] by (simp add: drop_duplicates_def)
  have dist: "distinct (map duplicate_check_cols ?df6)"
  proof (cases "length (duplicated_rows ?df5) > 0")
    case True
    then show ?thesis
      by (simp add: drop_duplicates_def drop_duplicates_from_distinct)
  next
    case False
    then have "duplicated_rows ?df5 = []" by simp
    then have "distinct (map duplicate_check_cols ?df5)"
      by (simp only: duplicated_rows_empty_iff)
    with False show ?thesis by simp
  qed
  from that [OF df4 out sub dist] show thesis .
qed

lemma clean_data_cleaned:
  assumes "clean_data parse df = Inr out" and "r \<in> set out"
  shows "cleaned_row r"
proof -
  from assms(1) obtain df4 df6 where
    df4: "to_datetime parse (map to_pounds (filter (\<lambda>r. total_col r \<noteq> Some 0)
        (filter (\<lambda>r. total_col r \<noteq> None) df))) = Inr df4"
    and out: "out = dropna df6"
    and sub: "set df6 \<subseteq> set (map (\<lambda>r. r\<lparr>has_card_reader := astype_bool (has_card_reader r)\<rparr>) df4)"
    by (rule clean_data_unfold)
  from assms(2) out have r6: "r \<in> set df6"
    and na: "transaction_id r \<noteq> None" "at_col r \<noteq> NaT" "truck_id r \<noteq> None"
      "payment_method_id r \<noteq> None"
    by (simp_all add: dropna_def)
  from r6 sub obtain r4 where r4: "r4 \<in> set df4"
    and r: "r = r4\<lparr>has_card_reader := astype_bool (has_card_reader r4)\<rparr>"
    by auto
  from to_datetime_rows [OF df4 r4] obtain r3 where
    noStr: "\<forall>s. at_col r4 \<noteq> AtStr s"
    and r3: "r3 \<in> set (map to_pounds (filter (\<lambda>r. total_col r \<noteq> Some 0)
        (filter (\<lambda>r. total_col r \<noteq> None) df)))"
    and r4': "r4 = r3\<lparr>at_col := at_col r4\<rparr>"
    by blast
  from r3 obtain r2 where r2: "total_col r2 \<noteq> None" "total_col r2 \<noteq> Some 0" "r3 = to_pounds r2"
    by auto
  from r2 obtain x where x: "total_col r2 = Some x" "x \<noteq> 0" by auto
  have "total_col r4 = total_col r3" by (subst r4') simp
  with r r2(3) x have tot: "total_col r = Some (x / 100)" by (simp add: to_pounds_def)
  from r na(2) noStr obtain d where d: "at_col r = AtTime d"
    by (cases "at_col r4") auto
  from r astype_bool_is_bool [of "has_card_reader r4"] obtain b where
    b: "has_card_reader r = FlagBool b" by auto
  show ?thesis
    using na tot x(2) d b by (simp add: cleaned_row_def)
qed

lemma clean_data_distinct:
  assumes "clean_data parse df = Inr out"
  shows "distinct (map duplicate_check_cols out)"
proof -
  from assms obtain df6 where out: "out = dropna df6"
    and dist: "distinct (map duplicate_check_cols df6)"
    by (rule clean_data_unfold)
  show ?thesis
    unfolding out dropna_def using dist by (rule distinct_map_filter)
qed

lemma duplicate_check_cols_to_pounds:
  "duplicate_check_cols (to_pounds r) =
     (case duplicate_check_cols r of (a, t, p, x) \<Rightarrow> (a, t, p, map_option (\<lambda>x. x / 100) x))"
  by (simp add: duplicate_check_cols_def to_pounds_def)

lemma inj_rescale_key:
  "inj (\<lambda>k :: at_cell \<times> int option \<times> int option \<times> rat option.
          case k of (a, t, p, x) \<Rightarrow> (a, t, p, map_option (\<lambda>x. x / 100) x))"
proof (rule injI)
  fix k k' :: "at_cell \<times> int option \<times> int option \<times> rat option"
  assume e: "(case k of (a, t, p, x) \<Rightarrow> (a, t, p, map_option (\<lambda>x. x / 100) x)) =
             (case k' of (a, t, p, x) \<Rightarrow> (a, t, p, map_option (\<lambda>x. x / 100) x))"
  obtain a t p x where k: "k = (a, t, p, x)" by (cases k) auto
  obtain a' t' p' x' where k': "k' = (a', t', p', x')" by (cases k') auto
  from e k k' have "a = a'" "t = t'" "p = p'"
    and m: "map_option (\<lambda>x. x / 100) x = map_option (\<lambda>x. x / 100) x'"
    by simp_all
  from m have "x = x'" by (cases x; cases x') simp_all
  with \<open>a = a'\<close> \<open>t = t'\<close> \<open>p = p'\<close> k k' show "k = k'" by simp
qed

lemma cleaned_row_to_pounds: "cleaned_row r \<Longrightarrow> cleaned_row (to_pounds r)"
  by (auto simp: cleaned_row_def to_pounds_def split: option.splits)

lemma clean_data_of_cleaned:
  assumes c: "\<forall>r\<in>set out. cleaned_row r"
    and d: "distinct (map duplicate_check_cols out)"
  shows "clean_data parse out = Inr (map to_pounds out)"
proof -
  have f1: "filter (\<lambda>r. total_col r \<noteq> None) out = out"
    unfolding filter_id_conv using c by (auto simp: cleaned_row_iff)
  have f2: "filter (\<lambda>r. total_col r \<noteq> Some 0) out = out"
    unfolding filter_id_conv using c by (auto simp: cleaned_row_iff)
  have c3: "\<forall>r\<in>set (map to_pounds out). cleaned_row r"
    using c by (auto intro: cleaned_row_to_pounds)
  then have "\<forall>r\<in>set (map to_pounds out). \<exists>d. at_col r = AtTime d"
    unfolding cleaned_row_iff by blast
  then have t: "to_datetime parse (map to_pounds out) = Inr (map to_pounds out)"
    by (rule to_datetime_parsed)
  have "\<forall>r\<in>set (map to_pounds out). r\<lparr>has_card_reader := astype_bool (has_card_reader r)\<rparr> = r"
  proof
    fix r assume "r \<in> set (map to_pounds out)"
    with c3 have "cleaned_row r" by blast
    then obtain b where "has_card_reader r = FlagBool b"
      unfolding cleaned_row_iff by blast
    then show "r\<lparr>has_card_reader := astype_bool (has_card_reader r)\<rparr> = r"
      by (simp add: astype_bool_def)
  qed
  then have b: "map (\<lambda>r. r\<lparr>has_card_reader := astype_bool (has_card_reader r)\<rparr>) (map to_pounds out)
      = map to_pounds out"
    by (intro map_idI) blast
  define g :: "at_cell \<times> int option \<times> int option \<times> rat option \<Rightarrow> _"
    where "g = (\<lambda>k. case k of (a, t, p, x) \<Rightarrow> (a, t, p, map_option (\<lambda>x. x / 100) x))"
  have e: "map duplicate_check_cols (map to_pounds out) = map g (map duplicate_check_cols out)"
    by (induction out) (simp_all add: duplicate_check_cols_to_pounds g_def)
  have "inj g" unfolding g_def by (rule inj_rescale_key)
  then have "inj_on g (set (map duplicate_check_cols out))"
    by (rule inj_on_subset) simp
  with d have "distinct (map g (map duplicate_check_cols out))"
    by (simp only: distinct_map)
  then have "distinct (map duplicate_check_cols (map to_pounds out))"
    by (simp only: e)
  then have nodup: "duplicated_rows (map to_pounds out) = []"
    by (simp only: duplicated_rows_empty_iff)
  have n: "dropna (map to_pounds out) = map to_pounds out"
    unfolding dropna_def filter_id_conv
  proof
    fix r assume "r \<in> set (map to_pounds out)"
    with c3 have "cleaned_row r" by blast
    then show "transaction_id r \<noteq> None \<and> at_col r \<noteq> NaT \<and> total_col r \<noteq> None \<and>
        truck_id r \<noteq> None \<and> payment_method_id r \<noteq> None"
      by (auto simp: cleaned_row_iff)
  qed
  have "clean_data parse out =
      (case to_datetime parse (map to_pounds out) of
         Inl e \<Rightarrow> Inl e
       | Inr df4 \<Rightarrow>
           (let df5 = map (\<lambda>r. r\<lparr>has_card_reader := astype_bool (has_card_reader r)\<rparr>) df4;
                duplicates = duplicated_rows df5;
                df6 = (if length duplicates > 0 then drop_duplicates df5 else df5)
            in Inr (dropna df6)))"
    by (simp only: clean_data_def Let_def f1 f2)
  also have "\<dots> = Inr (map to_pounds out)"
    by (simp only: t sum.case Let_def b nodup) (simp add: n)
  finally show ?thesis .
qed

text \<open>
  C7. The scenario of the specification: of a zero-amount row 1 and two identical rows 2
  of 500 pence, all at 2024-01-01T10:00:00, cleaning returns exactly one row 2 with the
  amount 5 and the parsed timestamp. The columns the scenario leaves open are arbitrary
  (\<open>r1\<close> for row 1, \<open>r2\<close> for both rows 2), the two references of row 2
  being present.
\<close>

theorem clean_data_scenario:
  assumes "parse ''2024-01-01T10:00:00'' = Some d"
    and "truck_id r2 = Some t" and "payment_method_id r2 = Some p"
  shows "clean_data parse
           [r1\<lparr>transaction_id := Some 1, total_col := Some 0, at_col := AtStr ''2024-01-01T10:00:00''\<rparr>,
            r2\<lparr>transaction_id := Some 2, total_col := Some 500, at_col := AtStr ''2024-01-01T10:00:00''\<rparr>,
            r2\<lparr>transaction_id := Some 2, total_col := Some 500, at_col := AtStr ''2024-01-01T10:00:00''\<rparr>]
         = Inr [r2\<lparr>transaction_id := Some 2, total_col := Some 5, at_col := AtTime d,
                   has_card_reader := astype_bool (has_card_reader r2)\<rparr>]"
  using assms
  by (simp add: clean_data_def to_pounds_def to_datetime_cell_def duplicated_rows_def
      duplicate_check_cols_def drop_duplicates_def dropna_def Let_def)

lemma fromisoformat_example: "fromisoformat ''2024-01-01T10:00:00'' = Some example_time"
  by (simp add: fromisoformat_def read4_def read2_def digit_val_def valid_datetime_def
      days_in_month_def is_leap_def less_eq_char_def example_time_def)

theorem clean_data_scenario_witness:
  "fromisoformat ''2024-01-01T10:00:00'' = Some example_time \<and>
   truck_id example_row = Some 3 \<and> payment_method_id example_row = Some 1 \<and>
   clean_data fromisoformat
     [example_row\<lparr>transaction_id := Some 1, total_col := Some 0, at_col := AtStr ''2024-01-01T10:00:00''\<rparr>,
      example_row\<lparr>transaction_id := Some 2, total_col := Some 500, at_col := AtStr ''2024-01-01T10:00:00''\<rparr>,
      example_row\<lparr>transaction_id := Some 2, total_col := Some 500, at_col := AtStr ''2024-01-01T10:00:00''\<rparr>]
   = Inr [example_row\<lparr>transaction_id := Some 2, total_col := Some 5, at_col := AtTime example_time,
            has_card_reader := FlagBool True\<rparr>]"
proof -
  have t: "truck_id example_row = Some 3" and p: "payment_method_id example_row = Some 1"
    and h: "astype_bool (has_card_reader example_row) = FlagBool True"
    by (simp_all add: example_row_def astype_bool_def)
  show ?thesis
    using clean_data_scenario [where parse = fromisoformat and d = example_time
        and ?r1.0 = example_row and ?r2.0 = example_row and t = 3 and p = 1]
      t p h fromisoformat_example
    by simp
qed

lemma clean_data_example:
  "clean_data fromisoformat [example_row] =
     Inr [example_row\<lparr>total_col := Some 5, at_col := AtTime example_time,
            has_card_reader := FlagBool True\<rparr>]"
  by (simp add: clean_data_def to_pounds_def to_datetime_cell_def duplicated_rows_def
      duplicate_check_cols_def drop_duplicates_def dropna_def Let_def example_row_def
      fromisoformat_example astype_bool_def)

text \<open>
  C2 as stated (cleaning the cleaned rows changes nothing) fails: one row of 500 pence is
  cleaned to 5 pounds, and cleaning that row again divides the amount by 100 once more.
\<close>

theorem clean_data_not_idempotent:
  "clean_data fromisoformat [example_row] =
     Inr [example_row\<lparr>total_col := Some 5, at_col := AtTime example_time,
            has_card_reader := FlagBool True\<rparr>] \<and>
   clean_data fromisoformat
     [example_row\<lparr>total_col := Some 5, at_col := AtTime example_time,
        has_card_reader := FlagBool True\<rparr>] =
     Inr [example_row\<lparr>total_col := Some (1 / 20), at_col := AtTime example_time,
            has_card_reader := FlagBool True\<rparr>] \<and>
   clean_data fromisoformat
     [example_row\<lparr>total_col := Some 5, at_col := AtTime example_time,
        has_card_reader := FlagBool True\<rparr>] \<noteq>
     Inr [example_row\<lparr>total_col := Some 5, at_col := AtTime example_time,
            has_card_reader := FlagBool True\<rparr>]"
proof -
  have second: "clean_data fromisoformat
     [example_row\<lparr>total_col := Some 5, at_col := AtTime example_time,
        has_card_reader := FlagBool True\<rparr>] =
     Inr [example_row\<lparr>total_col := Some (1 / 20), at_col := AtTime example_time,
            has_card_reader := FlagBool True\<rparr>]"
  proof -
    have "\<forall>r\<in>set [example_row\<lparr>total_col := Some 5, at_col := AtTime example_time,
        has_card_reader := FlagBool True\<rparr>]. cleaned_row r"
      by (simp add: cleaned_row_def example_row_def)
    then have "clean_data fromisoformat
       [example_row\<lparr>total_col := Some 5, at_col := AtTime example_time,
          has_card_reader := FlagBool True\<rparr>] =
       Inr (map to_pounds [example_row\<lparr>total_col := Some 5, at_col := AtTime example_time,
          has_card_reader := FlagBool True\<rparr>])"
      by (rule clean_data_of_cleaned) simp
    then show ?thesis by (simp add: to_pounds_def)
  qed
  have "(1 / 20 :: rat) \<noteq> 5" by simp
  then have "example_row\<lparr>total_col := Some (1 / 20), at_col := AtTime example_time,
            has_card_reader := FlagBool True\<rparr> \<noteq>
        example_row\<lparr>total_col := Some 5, at_col := AtTime example_time,
            has_card_reader := FlagBool True\<rparr>"
    by (simp add: example_row_def)
  with second clean_data_example show ?thesis by simp
qed

text \<open>
  C2, amended. Cleaning the cleaned rows again succeeds, keeps every row, its order and
  every other column, and divides each amount by 100 a second time.
\<close>

theorem clean_data_twice:
  assumes "clean_data parse df = Inr out"
  shows "clean_data parse out = Inr (map to_pounds out)"
  using clean_data_cleaned [OF assms] clean_data_distinct [OF assms]
  by (intro clean_data_of_cleaned) auto

theorem clean_data_twice_witness:
  "clean_data fromisoformat [example_row] =
     Inr [example_row\<lparr>total_col := Some 5, at_col := AtTime example_time,
            has_card_reader := FlagBool True\<rparr>] \<and>
   clean_data fromisoformat
     [example_row\<lparr>total_col := Some 5, at_col := AtTime example_time,
        has_card_reader := FlagBool True\<rparr>] =
     Inr [example_row\<lparr>total_col := Some (1 / 20), at_col := AtTime example_time,
            has_card_reader := FlagBool True\<rparr>]"
  using clean_data_twice [OF clean_data_example] clean_data_example
  by (simp add: to_pounds_def)

section \<open>Theorems about partitioning\<close>

lemma groups_cover:
  "distinct ks \<Longrightarrow> f ` set xs \<subseteq> set ks \<Longrightarrow>
     mset (concat (map (\<lambda>k. filter (\<lambda>x. f x = k) xs) ks)) = mset xs"
proof (induction ks arbitrary: xs)
  case Nil
  then show ?case by simp
next
  case (Cons k ks)
  let ?rest = "filter (\<lambda>x. f x \<noteq> k) xs"
  have sub: "f ` set ?rest \<subseteq> set ks" using Cons.prems(2) by auto
  have same: "map (\<lambda>k'. filter (\<lambda>x. f x = k') xs) ks = map (\<lambda>k'. filter (\<lambda>x. f x = k') ?rest) ks"
  proof (rule map_cong [OF refl])
    fix k' assume "k' \<in> set ks"
    with Cons.prems(1) have "k' \<noteq> k" by auto
    then have "\<And>x. (f x \<noteq> k \<and> f x = k') = (f x = k')" by auto
    then show "filter (\<lambda>x. f x = k') xs = filter (\<lambda>x. f x = k') ?rest" by simp
  qed
  from Cons.prems(1) have "distinct ks" by simp
  from Cons.IH [OF this sub]
  have "mset (concat (map (\<lambda>k'. filter (\<lambda>x. f x = k') xs) ks)) = mset ?rest"
    by (simp only: same)
  moreover have "mset (filter (\<lambda>x. f x = k) xs) + mset ?rest = mset xs"
    by (simp only: mset_filter) (rule multiset_partition [symmetric])
  ultimately show ?case by simp
qed

lemma strip_group:
  "map fst (filter (\<lambda>x. snd x = Some k) (map (\<lambda>r. (r, col r)) df)) =
     filter (\<lambda>r. col r = Some k) df"
  by (induction df) simp_all

lemma group_keys:
  "set (List.map_filter snd (map (\<lambda>r. (r, col r)) df)) = {k. \<exists>r\<in>set df. col r = Some k}"
  by (induction df) (auto split: option.splits)

lemma partition_transactions_timestamps:
  assumes "\<forall>r\<in>set df. \<exists>d. at_col r = AtTime d"
  shows "partition_transactions df =
     Inr (map (\<lambda>k. (k, filter (\<lambda>r. date_parts r = Some k) df))
           (sort (remdups (List.map_filter snd (map (\<lambda>r. (r, date_parts r)) df)))))"
proof -
  from assms have a: "\<not> (\<exists>r\<in>set df. is_text (at_col r))"
    by (auto simp: is_text_def)
  from assms have b: "\<not> (\<exists>r\<in>set df. at_col r = NaT)" by auto
  show ?thesis
    by (simp add: partition_transactions_def a b Let_def groupby_def strip_group comp_def)
qed


text \<open>
  C4. For the rows cleaning returns, partitioning succeeds; the group keys are pairwise
  different; every group is exactly the rows of its (year, month, day), in input order
  and without the date columns, and is not empty; every row's date is the key of a group;
  and the groups together are the input rows, each as often as in the input.
\<close>

theorem partition_transactions_complete:
  assumes "clean_data parse raw = Inr df"
  shows "\<exists>groups. partition_transactions df = Inr groups \<and>
           distinct (map fst groups) \<and>
           (\<forall>(k, g)\<in>set groups. g = filter (\<lambda>r. date_parts r = Some k) df \<and> g \<noteq> []) \<and>
           (\<forall>r\<in>set df. \<exists>k. date_parts r = Some k \<and> k \<in> set (map fst groups)) \<and>
           mset (concat (map snd groups)) = mset df"
proof -
  let ?ks = "sort (remdups (List.map_filter snd (map (\<lambda>r. (r, date_parts r)) df)))"
  let ?groups = "map (\<lambda>k. (k, filter (\<lambda>r. date_parts r = Some k) df)) ?ks"
  have ts: "\<forall>r\<in>set df. \<exists>d. at_col r = AtTime d"
    using clean_data_cleaned [OF assms] unfolding cleaned_row_iff by blast
  then have run: "partition_transactions df = Inr ?groups"
    by (rule partition_transactions_timestamps)
  have keys: "set ?ks = {k. \<exists>r\<in>set df. date_parts r = Some k}"
    by (simp add: group_keys)
  have fsts: "map fst ?groups = ?ks" by (simp add: comp_def)
  have snds: "map snd ?groups = map (\<lambda>k. filter (\<lambda>r. date_parts r = Some k) df) ?ks"
    by (simp add: comp_def)
  have d: "distinct ?ks" by simp
  have each: "\<forall>(k, g)\<in>set ?groups. g = filter (\<lambda>r. date_parts r = Some k) df \<and> g \<noteq> []"
  proof -
    have "\<And>k. k \<in> set ?ks \<Longrightarrow> filter (\<lambda>r. date_parts r = Some k) df \<noteq> []"
      unfolding keys by (auto simp: filter_empty_conv)
    then show ?thesis by auto
  qed
  have all: "\<forall>r\<in>set df. \<exists>k. date_parts r = Some k \<and> k \<in> set ?ks"
  proof
    fix r assume r: "r \<in> set df"
    with ts obtain dt where "at_col r = AtTime dt" by blast
    then have "date_parts r = Some (year dt, month dt, day dt)" by (simp add: date_parts_def)
    with r show "\<exists>k. date_parts r = Some k \<and> k \<in> set ?ks"
      unfolding keys by blast
  qed
  have "(\<lambda>r. the (date_parts r)) ` set df \<subseteq> set ?ks"
    using all by force
  from groups_cover [OF d this]
  have "mset (concat (map (\<lambda>k. filter (\<lambda>r. the (date_parts r) = k) df) ?ks)) = mset df" .
  moreover have "map (\<lambda>k. filter (\<lambda>r. the (date_parts r) = k) df) ?ks =
      map (\<lambda>k. filter (\<lambda>r. date_parts r = Some k) df) ?ks"
  proof -
    have "\<And>k. filter (\<lambda>r. the (date_parts r) = k) df = filter (\<lambda>r. date_parts r = Some k) df"
      by (rule filter_cong [OF refl]) (use all in force)
    then show ?thesis by simp
  qed
  ultimately have cover: "mset (concat (map snd ?groups)) = mset df"
    by (simp only: snds)
  from d have d': "distinct (map fst ?groups)" by (simp only: fsts)
  from all have all': "\<forall>r\<in>set df. \<exists>k. date_parts r = Some k \<and> k \<in> set (map fst ?groups)"
    by (simp only: fsts)
  from run d' each all' cover show ?thesis by blast
qed



lemma fromisoformat_next_day: "fromisoformat ''2024-01-02T09:30:00'' = Some next_day_time"
  by (simp add: fromisoformat_def read4_def read2_def digit_val_def valid_datetime_def
      days_in_month_def is_leap_def less_eq_char_def next_day_time_def)

lemma clean_data_two_days:
  "clean_data fromisoformat [next_day_row, example_row] = Inr [cleaned_next_day, cleaned_example]"
  by (simp add: clean_data_def to_pounds_def to_datetime_cell_def duplicated_rows_def
      duplicate_check_cols_def drop_duplicates_def dropna_def Let_def example_row_def
      next_day_row_def fromisoformat_example fromisoformat_next_day astype_bool_def
      example_time_def next_day_time_def cleaned_example_def cleaned_next_day_def)

lemma partition_two_days:
  "partition_transactions [cleaned_next_day, cleaned_example] =
     Inr [((2024, 1, 1), [cleaned_example]), ((2024, 1, 2), [cleaned_next_day])]"
  by (simp add: partition_transactions_def is_text_def groupby_def date_parts_def Let_def
      example_time_def next_day_time_def cleaned_example_def cleaned_next_day_def)

theorem partition_transactions_complete_witness:
  "clean_data fromisoformat [next_day_row, example_row] = Inr [cleaned_next_day, cleaned_example] \<and>
   partition_transactions [cleaned_next_day, cleaned_example] =
     Inr [((2024, 1, 1), [cleaned_example]), ((2024, 1, 2), [cleaned_next_day])] \<and>
   distinct (map fst [((2024 :: nat, 1 :: nat, 1 :: nat), [cleaned_example]),
                      ((2024, 1, 2), [cleaned_next_day])]) \<and>
   mset (concat (map snd [((2024 :: nat, 1 :: nat, 1 :: nat), [cleaned_example]),
                          ((2024, 1, 2), [cleaned_next_day])])) =
     mset [cleaned_next_day, cleaned_example]"
proof -
  from partition_transactions_complete [OF clean_data_two_days]
  obtain groups where
    run: "partition_transactions [cleaned_next_day, cleaned_example] = Inr groups"
    and keys: "distinct (map fst groups)"
    and cover: "mset (concat (map snd groups)) = mset [cleaned_next_day, cleaned_example]"
    by blast
  from run have g: "groups =
      [((2024, 1, 1), [cleaned_example]), ((2024, 1, 2), [cleaned_next_day])]"
    by (simp only: partition_two_days sum.inject)
  from keys cover clean_data_two_days partition_two_days show ?thesis
    unfolding g by (intro conjI)
qed

section \<open>Theorems about extraction\<close>

lemma is_space_not_digit: "is_space c \<Longrightarrow> digit_val c = None"
  unfolding is_space_def by (auto simp: digit_val_def less_eq_char_def)

lemma digit_char_not_space: "\<not> is_space (digit_char (n mod 10))"
proof
  assume "is_space (digit_char (n mod 10))"
  then have "digit_val (digit_char (n mod 10)) = None" by (rule is_space_not_digit)
  moreover have "digit_val (digit_char (n mod 10)) = Some (n mod 10)"
    by (rule digit_val_digit_char) simp
  ultimately show False by simp
qed

lemma strip_strftime: "strip (strftime d) = strftime d"
  by (simp add: strip_def strftime_def four_digits_def two_digits_def digit_char_not_space)

lemma plus_one_second_greater:
  "plus_one_second d = Inr d' \<Longrightarrow> dt_key d < dt_key d'"
  by (auto simp: plus_one_second_def dt_key_def split: if_splits)

lemma days_in_month_ge: "1 \<le> days_in_month y m"
  by (simp add: days_in_month_def)

lemma plus_one_second_valid:
  "valid_datetime d \<Longrightarrow> plus_one_second d = Inr d' \<Longrightarrow> valid_datetime d'"
  using days_in_month_ge [of "year d" "Suc (month d)"] days_in_month_ge [of "Suc (year d)" 1]
  by (auto simp: plus_one_second_def valid_datetime_def split: if_splits)


lemma join_dimensions_at: "r \<in> set (join_dimensions d ft) \<Longrightarrow> at_col r = AtTime (ft_at ft)"
  by (auto simp: join_dimensions_def select_row_def)

lemma extract_data_rows:
  assumes "r \<in> set (extract_data d since)"
  obtains ft where "ft \<in> set (FACT_Transaction d)" and "selected since ft"
    and "at_col r = AtTime (ft_at ft)"
proof -
  from assms obtain ft where
    ft: "ft \<in> set (sort_key (\<lambda>ft. dt_key (ft_at ft)) (filter (selected since) (FACT_Transaction d)))"
    and r: "r \<in> set (join_dimensions d ft)"
    by (auto simp: extract_data_def)
  from ft have "ft \<in> set (FACT_Transaction d)" "selected since ft" by simp_all
  with join_dimensions_at [OF r] that show thesis by blast
qed

lemma sorted_wrt_all_pairs: "(\<forall>x\<in>set xs. \<forall>y\<in>set xs. P x y) \<Longrightarrow> sorted_wrt P xs"
  by (induction xs) auto

lemma sorted_blocks:
  assumes "sorted (map k fts)"
    and "\<And>ft r. r \<in> set (g ft) \<Longrightarrow> row_time r = Some (t ft)"
    and "\<And>ft. k ft = dt_key (t ft)"
  shows "sorted_wrt at_le (concat (map g fts))"
  using assms(1)
proof (induction fts)
  case Nil
  then show ?case by simp
next
  case (Cons ft fts)
  have block: "sorted_wrt at_le (g ft)"
    by (rule sorted_wrt_all_pairs) (auto simp: at_le_def assms(2))
  have later: "\<forall>x\<in>set (g ft). \<forall>y\<in>set (concat (map g fts)). at_le x y"
  proof (intro ballI)
    fix x y assume x: "x \<in> set (g ft)" and y: "y \<in> set (concat (map g fts))"
    from y obtain ft' where ft': "ft' \<in> set fts" and y': "y \<in> set (g ft')" by auto
    from Cons.prems ft' have "k ft \<le> k ft'" by simp
    then show "at_le x y"
      by (simp add: at_le_def assms(2) [OF x] assms(2) [OF y'] assms(3) [symmetric])
  qed
  from Cons.prems have "sorted (map k fts)" by simp
  with Cons.IH block later show ?case by (simp add: sorted_wrt_append)
qed

lemma extract_data_sorted: "sorted_wrt at_le (extract_data d since)"
  unfolding extract_data_def
proof (rule sorted_blocks [where k = "\<lambda>ft. dt_key (ft_at ft)" and t = ft_at])
  show "sorted (map (\<lambda>ft. dt_key (ft_at ft))
      (sort_key (\<lambda>ft. dt_key (ft_at ft)) (filter (selected since) (FACT_Transaction d))))"
    by (rule sorted_sort_key)
next
  fix ft r assume "r \<in> set (join_dimensions d ft)"
  then show "row_time r = Some (ft_at ft)"
    by (simp add: row_time_def join_dimensions_at)
next
  fix ft :: fact_transaction
  show "dt_key (ft_at ft) = dt_key (ft_at ft)" by (rule refl)
qed

lemma fromisoformat_nonempty: "fromisoformat s = Some t \<Longrightarrow> s \<noteq> []"
  by (auto simp: fromisoformat_def)

lemma extract_data_after:
  assumes "fromisoformat since = Some T" and "r \<in> set (extract_data d (Some since))"
  shows "\<exists>a. at_col r = AtTime a \<and> dt_key T < dt_key a"
proof -
  from assms(2) obtain ft where sel: "selected (Some since) ft" and at: "at_col r = AtTime (ft_at ft)"
    by (rule extract_data_rows)
  from sel assms(1) fromisoformat_nonempty [OF assms(1)] have "dt_key T < dt_key (ft_at ft)"
    by (simp add: selected_def where_at_after_def)
  with at show ?thesis by blast
qed

text \<open>
  C3. When the lower bound \<open>since\<close> is the text of the timestamp \<open>T\<close>, every row
  that extraction returns has an event time strictly after \<open>T\<close>, none has an event time
  equal to or before \<open>T\<close>, and the rows are in ascending order of the event time.
\<close>

theorem extract_data_no_lookback:
  assumes "fromisoformat since = Some T"
  shows "(\<forall>r\<in>set (extract_data d (Some since)). \<exists>a. at_col r = AtTime a \<and> dt_key T < dt_key a) \<and>
         (\<forall>r\<in>set (extract_data d (Some since)). \<forall>a. at_col r = AtTime a \<longrightarrow> \<not> dt_key a \<le> dt_key T) \<and>
         sorted_wrt at_le (extract_data d (Some since))"
proof (intro conjI ballI allI impI)
  fix r assume "r \<in> set (extract_data d (Some since))"
  from extract_data_after [OF assms this]
  show "\<exists>a. at_col r = AtTime a \<and> dt_key T < dt_key a" .
next
  fix r a assume "r \<in> set (extract_data d (Some since))" and a: "at_col r = AtTime a"
  from extract_data_after [OF assms this(1)] a have "dt_key T < dt_key a" by auto
  then show "\<not> dt_key a \<le> dt_key T" by simp
next
  show "sorted_wrt at_le (extract_data d (Some since))" by (rule extract_data_sorted)
qed


lemma strftime_example: "strftime example_time = ''2024-01-01 10:00:00''"
  by code_simp

lemma valid_example_time: "valid_datetime example_time"
  by (simp add: valid_datetime_def example_time_def days_in_month_def)

lemma valid_next_day_time: "valid_datetime next_day_time"
  by (simp add: valid_datetime_def next_day_time_def days_in_month_def)

lemma extract_after_example:
  "extract_data example_db (Some ''2024-01-01 10:00:00'') =
     [example_row\<lparr>transaction_id := Some 3, at_col := AtTime next_day_time\<rparr>]"
proof -
  have "fromisoformat ''2024-01-01 10:00:00'' = Some example_time"
    using fromisoformat_strftime [OF valid_example_time] by (simp only: strftime_example)
  then show ?thesis
    by (simp add: extract_data_def example_db_def selected_def where_at_after_def
        join_dimensions_def select_row_def example_row_def dt_key_def example_time_def
        next_day_time_def)
qed

theorem extract_data_no_lookback_witness:
  "fromisoformat ''2024-01-01 10:00:00'' = Some example_time \<and>
   extract_data example_db (Some ''2024-01-01 10:00:00'') =
     [example_row\<lparr>transaction_id := Some 3, at_col := AtTime next_day_time\<rparr>] \<and>
   (\<exists>a. at_col (example_row\<lparr>transaction_id := Some 3, at_col := AtTime next_day_time\<rparr>) = AtTime a \<and>
        dt_key example_time < dt_key a) \<and>
   sorted_wrt at_le (extract_data example_db (Some ''2024-01-01 10:00:00''))"
proof -
  have p: "fromisoformat ''2024-01-01 10:00:00'' = Some example_time"
    using fromisoformat_strftime [OF valid_example_time] by (simp only: strftime_example)
  from extract_data_no_lookback [OF p, of example_db] p show ?thesis
    by (simp add: extract_after_example)
qed





section \<open>Theorems about a run\<close>

lemma extract_data_empty:
  assumes "\<forall>ft\<in>set (FACT_Transaction d). \<not> selected since ft"
  shows "extract_data d since = []"
proof -
  from assms have "filter (selected since) (FACT_Transaction d) = []"
    by (simp add: filter_empty_conv)
  then show ?thesis by (simp add: extract_data_def)
qed

text \<open>
  C8. When the state file is read without error and no fact row is selected by the query
  (no new data), extraction returns the empty frame, not an error;
  \<^verbatim>\<open>main_extract\<close> returns 0 and the run ends with success, leaving everything
  as it was: the state file is not written, no event is recorded (no write of the
  watermark, no later stage started) and no file or partition is written.
\<close>

theorem pipeline_no_new_data:
  assumes "get_last_processed_timestamp f w = Inr since"
    and "\<forall>ft\<in>set (FACT_Transaction (db w)). \<not> selected since ft"
  shows "extract_data (db w) since = [] \<and> main_extract f w = (Inr 0, w) \<and>
         pipeline f parse w = (Inr (), w)"
proof -
  have e: "extract_data (db w) since = []" using assms(2) by (rule extract_data_empty)
  have m: "main_extract f w = (Inr 0, w)"
    by (simp add: main_extract_def assms(1) e)
  have "pipeline f parse w = (Inr (), w)"
    by (simp add: pipeline_def m)
  with e m show ?thesis by simp
qed

lemma main_extract_state_file:
  "state_file (snd (main_extract f w)) =
     (case get_last_processed_timestamp f w of
        Inl e \<Rightarrow> state_file w
      | Inr since \<Rightarrow>
          (if extract_data (db w) since = [] \<or> state_write_error f then state_file w
           else Some (str_timestamp (series_max (extract_data (db w) since)))))"
  by (simp add: main_extract_def save_last_processed_timestamp_def save_data_def Let_def
      split: sum.splits)

lemma main_extract_events:
  "events (snd (main_extract f w)) =
     (case get_last_processed_timestamp f w of
        Inl e \<Rightarrow> events w
      | Inr since \<Rightarrow>
          (if extract_data (db w) since = [] \<or> state_write_error f then events w
           else events w @ [SavedTimestamp (str_timestamp (series_max (extract_data (db w) since)))]))"
  by (simp add: main_extract_def save_last_processed_timestamp_def save_data_def Let_def
      split: sum.splits)

lemma main_transform_keeps:
  "state_file (snd (main_transform parse w)) = state_file w \<and>
   events (snd (main_transform parse w)) = events w \<and>
   db (snd (main_transform parse w)) = db w"
  by (simp add: main_transform_def save_cleaned_data_def split: sum.splits)

lemma main_partition_transactions_keeps:
  "state_file (snd (main_partition_transactions parse w)) = state_file w \<and>
   events (snd (main_partition_transactions parse w)) = events w \<and>
   db (snd (main_partition_transactions parse w)) = db w"
  by (simp add: main_partition_transactions_def Let_def split: sum.splits)

lemma upload_transaction_data_keeps:
  "state_file (snd (upload_transaction_data f parse w)) = state_file w \<and>
   events (snd (upload_transaction_data f parse w)) = events w \<and>
   db (snd (upload_transaction_data f parse w)) = db w"
  by (simp add: upload_transaction_data_def upload_partitioned_transactions_def Let_def
      split: sum.splits option.splits error.splits prod.splits)

lemma log_event_keeps:
  "state_file (log_event e w) = state_file w \<and> events (log_event e w) = events w @ [e] \<and>
   db (log_event e w) = db w"
  by (simp add: log_event_def)

lemma pipeline_after_extract:
  "\<exists>rest. state_file (snd (pipeline f parse w)) = state_file (snd (main_extract f w)) \<and>
          events (snd (pipeline f parse w)) = events (snd (main_extract f w)) @ rest \<and>
          (\<forall>e\<in>set rest. \<not> is_saved e)"
proof -
  obtain res w1 where m: "main_extract f w = (res, w1)" by (cases "main_extract f w")
  show ?thesis
  proof (cases res)
    case (Inl e)
    with m have "pipeline f parse w = (Inl e, w1)" by (simp add: pipeline_def)
    with m show ?thesis by simp
  next
    case (Inr n)
    show ?thesis
    proof (cases "n = 0")
      case True
      with m Inr have "pipeline f parse w = (Inr (), w1)" by (simp add: pipeline_def)
      with m show ?thesis by simp
    next
      case False
      let ?a = "log_event StartedTransform w1"
      obtain r2 w2 where t: "main_transform parse ?a = (r2, w2)"
        by (cases "main_transform parse ?a")
      from main_transform_keeps [of parse ?a] t log_event_keeps [of StartedTransform w1]
      have k2: "state_file w2 = state_file w1" "events w2 = events w1 @ [StartedTransform]"
        by simp_all
      show ?thesis
      proof (cases r2)
        case (Inl e)
        with m Inr False t have "pipeline f parse w = (Inl e, w2)" by (simp add: pipeline_def)
        with m k2 show ?thesis by (simp add: is_saved_def)
      next
        case r2: (Inr c)
        let ?b = "log_event StartedPartition w2"
        obtain r3 w3 where p: "main_partition_transactions parse ?b = (r3, w3)"
          by (cases "main_partition_transactions parse ?b")
        from main_partition_transactions_keeps [of parse ?b] p
          log_event_keeps [of StartedPartition w2] k2
        have k3: "state_file w3 = state_file w1"
          "events w3 = events w1 @ [StartedTransform, StartedPartition]"
          by simp_all
        show ?thesis
        proof (cases r3)
          case (Inl e)
          with m Inr False t r2 p have "pipeline f parse w = (Inl e, w3)"
            by (simp add: pipeline_def)
          with m k3 show ?thesis by (simp add: is_saved_def)
        next
          case r3: (Inr g)
          let ?c = "log_event StartedUpload w3"
          from m Inr False t r2 p r3
          have run: "pipeline f parse w = upload_transaction_data f parse ?c"
            by (simp add: pipeline_def)
          from upload_transaction_data_keeps [of f parse ?c]
            log_event_keeps [of StartedUpload w3] k3
          have "state_file (snd (upload_transaction_data f parse ?c)) = state_file w1"
            "events (snd (upload_transaction_data f parse ?c)) =
               events w1 @ [StartedTransform, StartedPartition, StartedUpload]"
            by simp_all
          with m run show ?thesis by (simp add: is_saved_def)
        qed
      qed
    qed
  qed
qed

text \<open>
  C1, amended. The state file is written at most once per run and only by the extraction
  stage: when the state file was read, the query returned rows and the write went through,
  it holds the latest event time of the batch, and that write is the first event of the
  run; in every other case it is unchanged. No later stage writes it, so this holds
  whether cleaning, partitioning and the upload succeed or fail.
\<close>

theorem pipeline_watermark:
  "\<exists>rest. state_file (snd (pipeline f parse w)) =
            (case get_last_processed_timestamp f w of
               Inl e \<Rightarrow> state_file w
             | Inr since \<Rightarrow>
                 (if extract_data (db w) since = [] \<or> state_write_error f then state_file w
                  else Some (str_timestamp (series_max (extract_data (db w) since))))) \<and>
          events (snd (pipeline f parse w)) =
            (case get_last_processed_timestamp f w of
               Inl e \<Rightarrow> events w
             | Inr since \<Rightarrow>
                 (if extract_data (db w) since = [] \<or> state_write_error f then events w
                  else events w @
                    [SavedTimestamp (str_timestamp (series_max (extract_data (db w) since)))]))
            @ rest \<and>
          (\<forall>e\<in>set rest. \<not> is_saved e)"
  using pipeline_after_extract [of f parse w]
  by (simp only: main_extract_state_file main_extract_events)

lemma stored_ok_cases:
  assumes "stored_ok s"
  obtains "s = None" | W where "s = Some (strftime W)" and "valid_datetime W"
  using assms by (auto simp: stored_ok_def split: option.splits)

lemma stored_ok_strftime: "valid_datetime W \<Longrightarrow> stored_ok (Some (strftime W))"
  by (simp add: stored_ok_def fromisoformat_strftime)

lemma watermark_le_refl: "stored_ok s \<Longrightarrow> watermark_le s s"
  by (erule stored_ok_cases) (simp_all add: watermark_le_def fromisoformat_strftime)

lemma watermark_le_trans:
  "watermark_le a b \<Longrightarrow> watermark_le b c \<Longrightarrow> watermark_le a c"
  by (auto simp: watermark_le_def split: option.splits)

lemma watermark_le_strftime:
  "valid_datetime a \<Longrightarrow> valid_datetime b \<Longrightarrow> dt_key a \<le> dt_key b \<Longrightarrow>
     watermark_le (Some (strftime a)) (Some (strftime b))"
  by (simp add: watermark_le_def fromisoformat_strftime)

lemma foldl_dt_max_mem: "foldl dt_max d ds \<in> set (d # ds)"
proof (induction ds arbitrary: d)
  case Nil
  then show ?case by simp
next
  case (Cons a ds)
  from Cons.IH [of "dt_max d a"] show ?case by (auto simp: dt_max_def split: if_splits)
qed

lemma set_map_filter: "set (List.map_filter f xs) = {y. \<exists>x\<in>set xs. f x = Some y}"
  by (induction xs) (auto split: option.splits)

lemma series_max_extract:
  assumes "extract_data d since \<noteq> []"
  obtains ft where "ft \<in> set (FACT_Transaction d)" and "selected since ft"
    and "series_max (extract_data d since) = AtTime (ft_at ft)"
proof -
  from assms obtain r0 where r0: "r0 \<in> set (extract_data d since)"
    by (cases "extract_data d since") auto
  from r0 obtain ft0 where "ft0 \<in> set (FACT_Transaction d)" and "selected since ft0"
    and at0: "at_col r0 = AtTime (ft_at ft0)"
    by (rule extract_data_rows)
  from at0 have "row_time r0 = Some (ft_at ft0)" by (simp add: row_time_def)
  with r0 have "ft_at ft0 \<in> {y. \<exists>x\<in>set (extract_data d since). row_time x = Some y}"
    by blast
  then have "ft_at ft0 \<in> set (List.map_filter row_time (extract_data d since))"
    by (simp only: set_map_filter)
  then obtain t ts where ts: "List.map_filter row_time (extract_data d since) = t # ts"
    by (cases "List.map_filter row_time (extract_data d since)") auto
  then have m: "series_max (extract_data d since) = AtTime (foldl dt_max t ts)"
    by (simp add: series_max_def)
  have "foldl dt_max t ts \<in> set (List.map_filter row_time (extract_data d since))"
    unfolding ts by (rule foldl_dt_max_mem)
  then have "foldl dt_max t ts \<in> {y. \<exists>x\<in>set (extract_data d since). row_time x = Some y}"
    by (simp only: set_map_filter)
  then obtain r where r: "r \<in> set (extract_data d since)"
    and rt: "row_time r = Some (foldl dt_max t ts)"
    by blast
  from r obtain ft where ft: "ft \<in> set (FACT_Transaction d)" "selected since ft"
    "at_col r = AtTime (ft_at ft)"
    by (rule extract_data_rows)
  from ft(3) rt have "foldl dt_max t ts = ft_at ft" by (simp add: row_time_def)
  with m have e: "series_max (extract_data d since) = AtTime (ft_at ft)" by (simp only:)
  from that [OF ft(1) ft(2) e] show thesis .
qed

lemma get_last_processed_timestamp_stored:
  assumes "valid_datetime W" and "state_file w = Some (strftime W)"
    and "get_last_processed_timestamp f w = Inr since"
  obtains W' where "plus_one_second W = Inr W'" and "since = Some (strftime W')"
proof -
  have nr: "\<not> state_read_error f"
  proof
    assume "state_read_error f"
    then have "get_last_processed_timestamp f w = Inl ClientError"
      by (simp add: get_last_processed_timestamp_def)
    with assms(3) show False by simp
  qed
  have "get_last_processed_timestamp f w =
      (case plus_one_second W of Inl e \<Rightarrow> Inl e | Inr dt' \<Rightarrow> Inr (Some (strftime dt')))"
    by (simp add: get_last_processed_timestamp_def nr assms(2) strip_strftime
        fromisoformat_strftime [OF assms(1)])
  with assms(3) have c: "(case plus_one_second W of Inl e \<Rightarrow> Inl e
      | Inr dt' \<Rightarrow> Inr (Some (strftime dt'))) = Inr since"
    by simp
  show thesis
  proof (cases "plus_one_second W")
    case (Inl e)
    with c show ?thesis by simp
  next
    case (Inr W')
    with c have "since = Some (strftime W')" by simp
    with Inr that show ?thesis by blast
  qed
qed

lemma pipeline_step:
  assumes ok: "stored_ok (state_file w)" and vdb: "valid_db (db w)"
  shows "stored_ok (state_file (snd (pipeline f parse w))) \<and>
         watermark_le (state_file w) (state_file (snd (pipeline f parse w)))"
proof -
  from pipeline_after_extract [of f parse w]
  have st: "state_file (snd (pipeline f parse w)) =
     (case get_last_processed_timestamp f w of
        Inl e \<Rightarrow> state_file w
      | Inr since \<Rightarrow>
          (if extract_data (db w) since = [] \<or> state_write_error f then state_file w
           else Some (str_timestamp (series_max (extract_data (db w) since)))))"
    by (auto simp only: main_extract_state_file)
  show ?thesis
  proof (cases "get_last_processed_timestamp f w")
    case (Inl e)
    with st ok show ?thesis by (simp add: watermark_le_refl)
  next
    case (Inr since)
    show ?thesis
    proof (cases "extract_data (db w) since = [] \<or> state_write_error f")
      case True
      with st Inr ok show ?thesis by (simp add: watermark_le_refl)
    next
      case False
      then have ne: "extract_data (db w) since \<noteq> []" by simp
      then obtain ft where ft: "ft \<in> set (FACT_Transaction (db w))" "selected since ft"
        "series_max (extract_data (db w) since) = AtTime (ft_at ft)"
        by (rule series_max_extract)
      from vdb ft(1) have v: "valid_datetime (ft_at ft)" by (simp add: valid_db_def)
      from st Inr False ft(3)
      have new: "state_file (snd (pipeline f parse w)) = Some (strftime (ft_at ft))"
        by (simp add: str_timestamp_def)
      have le: "watermark_le (state_file w) (Some (strftime (ft_at ft)))"
        using ok
      proof (cases rule: stored_ok_cases)
        case 1
        then show ?thesis by (simp add: watermark_le_def)
      next
        case (2 W)
        from get_last_processed_timestamp_stored [OF 2(2) 2(1) Inr]
        obtain W' where p: "plus_one_second W = Inr W'" and s: "since = Some (strftime W')"
          by blast
        from 2(2) p have v': "valid_datetime W'" by (rule plus_one_second_valid)
        from fromisoformat_strftime [OF v'] have rt: "fromisoformat (strftime W') = Some W'" .
        from ft(2) s rt fromisoformat_nonempty [OF rt] have "dt_key W' < dt_key (ft_at ft)"
          by (simp add: selected_def where_at_after_def)
        with plus_one_second_greater [OF p] have "dt_key W \<le> dt_key (ft_at ft)" by simp
        with 2 v show ?thesis by (simp add: watermark_le_strftime)
      qed
      with new v show ?thesis by (simp add: stored_ok_strftime)
    qed
  qed
qed

lemma history_above:
  assumes "stored_ok (state_file w)" and "\<forall>(f, d)\<in>set runs. valid_db d"
  shows "\<forall>s\<in>set (history parse runs w). watermark_le (state_file w) s"
  using assms
proof (induction runs arbitrary: w)
  case Nil
  then show ?case by (simp add: watermark_le_refl)
next
  case (Cons run runs)
  obtain f d where run: "run = (f, d)" by (cases run)
  let ?w' = "snd (pipeline f parse (w\<lparr>db := d\<rparr>))"
  from Cons.prems run have vd: "valid_db (db (w\<lparr>db := d\<rparr>))" by simp
  from Cons.prems(1) have ok: "stored_ok (state_file (w\<lparr>db := d\<rparr>))" by simp
  from pipeline_step [OF ok vd, of f parse]
  have ok': "stored_ok (state_file ?w')" and le: "watermark_le (state_file w) (state_file ?w')"
    by simp_all
  from Cons.prems(2) have "\<forall>(f, d)\<in>set runs. valid_db d" by simp
  from Cons.IH [OF ok' this]
  have "\<forall>s\<in>set (history parse runs ?w'). watermark_le (state_file ?w') s" .
  with le have "\<forall>s\<in>set (history parse runs ?w'). watermark_le (state_file w) s"
    by (blast intro: watermark_le_trans)
  with Cons.prems(1) run show ?case by (simp add: watermark_le_refl)
qed

text \<open>
  C6. From a state file the pipeline has left, over databases with event times of the
  calendar, the contents of the state file along any sequence of runs never decrease,
  whatever faults the runs meet and however they end.
\<close>

theorem watermark_monotone:
  assumes "stored_ok (state_file w)" and "\<forall>(f, d)\<in>set runs. valid_db d"
  shows "sorted_wrt watermark_le (history parse runs w)"
  using assms
proof (induction runs arbitrary: w)
  case Nil
  then show ?case by simp
next
  case (Cons run runs)
  obtain f d where run: "run = (f, d)" by (cases run)
  let ?w' = "snd (pipeline f parse (w\<lparr>db := d\<rparr>))"
  from Cons.prems run have vd: "valid_db (db (w\<lparr>db := d\<rparr>))" by simp
  from Cons.prems(1) have ok: "stored_ok (state_file (w\<lparr>db := d\<rparr>))" by simp
  from pipeline_step [OF ok vd, of f parse]
  have ok': "stored_ok (state_file ?w')" and le: "watermark_le (state_file w) (state_file ?w')"
    by simp_all
  from Cons.prems(2) have rest: "\<forall>(f, d)\<in>set runs. valid_db d" by simp
  from history_above [OF ok' rest, of parse] le
  have "\<forall>s\<in>set (history parse runs ?w'). watermark_le (state_file w) s"
    by (blast intro: watermark_le_trans)
  with Cons.IH [OF ok' rest] run show ?case by simp
qed

lemma failed_upload_run:
  "fst (pipeline upload_fault fromisoformat first_run_world) = Inl UploadError"
  "lake (snd (pipeline upload_fault fromisoformat first_run_world)) = []"
  "state_file (snd (pipeline upload_fault fromisoformat first_run_world)) = Some ''2024-01-02 09:30:00''"
  by code_simp+

text \<open>
  C1 as stated fails. On a first run over two rows whose upload fails at the first
  partition, nothing is published, the run ends with the upload's error, and the state
  file, absent before, holds the latest event time of the batch.
\<close>

theorem watermark_advanced_before_publish:
  "state_file first_run_world = None \<and>
   fst (pipeline upload_fault fromisoformat first_run_world) = Inl UploadError \<and>
   lake (snd (pipeline upload_fault fromisoformat first_run_world)) = [] \<and>
   state_file (snd (pipeline upload_fault fromisoformat first_run_world)) =
     Some ''2024-01-02 09:30:00'' \<and>
   state_file (snd (pipeline upload_fault fromisoformat first_run_world)) \<noteq>
     state_file first_run_world"
  using failed_upload_run by (simp add: first_run_world_def)

lemma first_run_facts:
  "get_last_processed_timestamp upload_fault first_run_world = Inr None"
  "extract_data (db first_run_world) None \<noteq> []"
  "str_timestamp (series_max (extract_data (db first_run_world) None)) = ''2024-01-02 09:30:00''"
  "\<not> state_write_error upload_fault"
  by code_simp+

theorem pipeline_watermark_witness:
  "get_last_processed_timestamp upload_fault first_run_world = Inr None \<and>
   extract_data (db first_run_world) None \<noteq> [] \<and>
   \<not> state_write_error upload_fault \<and>
   state_file (snd (pipeline upload_fault fromisoformat first_run_world)) =
     Some ''2024-01-02 09:30:00'' \<and>
   (\<exists>rest. events (snd (pipeline upload_fault fromisoformat first_run_world)) =
      events first_run_world @ [SavedTimestamp ''2024-01-02 09:30:00''] @ rest)"
  using pipeline_watermark [of upload_fault fromisoformat first_run_world] first_run_facts
  by auto

lemma caught_up_facts:
  "get_last_processed_timestamp no_faults caught_up_world = Inr (Some ''2024-01-02 09:30:01'')"
  "list_all (\<lambda>ft. \<not> selected (Some ''2024-01-02 09:30:01'') ft) (FACT_Transaction (db caught_up_world))"
  by code_simp+

theorem pipeline_no_new_data_witness:
  "get_last_processed_timestamp no_faults caught_up_world = Inr (Some ''2024-01-02 09:30:01'') \<and>
   extract_data (db caught_up_world) (Some ''2024-01-02 09:30:01'') = [] \<and>
   main_extract no_faults caught_up_world = (Inr 0, caught_up_world) \<and>
   pipeline no_faults fromisoformat caught_up_world = (Inr (), caught_up_world)"
proof -
  from caught_up_facts(2)
  have "\<forall>ft\<in>set (FACT_Transaction (db caught_up_world)).
      \<not> selected (Some ''2024-01-02 09:30:01'') ft"
    by (simp only: list_all_iff)
  from pipeline_no_new_data [OF caught_up_facts(1) this, of fromisoformat] caught_up_facts(1)
  show ?thesis by simp
qed

lemma valid_dbs: "valid_db example_db" "valid_db later_db"
  by (simp_all add: valid_db_def example_db_def later_db_def valid_datetime_def
      days_in_month_def example_time_def next_day_time_def)

lemma two_runs:
  "history fromisoformat [(no_faults, example_db), (upload_fault, later_db)] first_run_world =
     [None, Some ''2024-01-02 09:30:00'', Some ''2024-01-03 09:30:00'']"
  by code_simp

theorem watermark_monotone_witness:
  "stored_ok (state_file first_run_world) \<and> valid_db example_db \<and> valid_db later_db \<and>
   history fromisoformat [(no_faults, example_db), (upload_fault, later_db)] first_run_world =
     [None, Some ''2024-01-02 09:30:00'', Some ''2024-01-03 09:30:00''] \<and>
   sorted_wrt watermark_le [None, Some ''2024-01-02 09:30:00'', Some ''2024-01-03 09:30:00'']"
proof -
  have ok: "stored_ok (state_file first_run_world)"
    by (simp add: first_run_world_def stored_ok_def)
  have dbs: "\<forall>(f, d)\<in>set [(no_faults, example_db), (upload_fault, later_db)]. valid_db d"
    by (simp add: valid_dbs)
  from watermark_monotone [OF ok dbs, of fromisoformat] ok valid_dbs two_runs
  show ?thesis by (simp only: simp_thms)
qed

section \<open>Theorems about the report metrics\<close>

lemma calculate_metrics_nonempty_keys:
  assumes "df \<noteq> []" and "calculate_metrics yesterday df = Inr m"
  shows "total_card_costs m \<noteq> None \<and> net_revenue m \<noteq> None"
  using assms
  by (auto simp: calculate_metrics_def Let_def split: list.splits)


lemma groupby_col_groups:
  "groupby_col col df =
     map (\<lambda>k. (k, filter (\<lambda>r. col r = Some k) df)) (sort (remdups (List.map_filter snd (map (\<lambda>r. (r, col r)) df))))"
  by (simp add: groupby_col_def groupby_def strip_group comp_def)

lemma series_sum_amount: "series_sum df = sum_list (map amount df)"
  by (induction df) (auto simp: series_sum_def amount_def split: option.splits)

lemma series_sum_mset: "mset xs = mset ys \<Longrightarrow> series_sum xs = series_sum ys"
proof -
  assume "mset xs = mset ys"
  then have "sum_mset (mset (map amount xs)) = sum_mset (mset (map amount ys))"
    by simp
  then show ?thesis by (simp only: sum_mset_sum_list series_sum_amount)
qed

lemma series_sum_concat:
  "sum_list (map (\<lambda>g. series_sum g) gs) = series_sum (concat gs)"
  by (induction gs) (simp_all add: series_sum_amount)

lemma groupby_col_revenue:
  assumes "\<forall>r\<in>set df. col r \<noteq> None"
  shows "sum_list (map (\<lambda>(k, g). series_sum g) (groupby_col col df)) = series_sum df"
proof -
  let ?ks = "sort (remdups (List.map_filter snd (map (\<lambda>r. (r, col r)) df)))"
  have keys: "set ?ks = {k. \<exists>r\<in>set df. col r = Some k}"
    by (simp add: group_keys)
  have d: "distinct ?ks" by simp
  have "(\<lambda>r. the (col r)) ` set df \<subseteq> set ?ks"
    unfolding keys using assms by force
  from groups_cover [OF d this]
  have "mset (concat (map (\<lambda>k. filter (\<lambda>r. the (col r) = k) df) ?ks)) = mset df" .
  moreover have "\<And>k. filter (\<lambda>r. the (col r) = k) df = filter (\<lambda>r. col r = Some k) df"
    by (rule filter_cong [OF refl]) (use assms in force)
  ultimately have "mset (concat (map (\<lambda>k. filter (\<lambda>r. col r = Some k) df) ?ks)) = mset df"
    by simp
  then have "series_sum (concat (map (\<lambda>k. filter (\<lambda>r. col r = Some k) df) ?ks)) = series_sum df"
    by (rule series_sum_mset)
  moreover have "sum_list (map (\<lambda>(k, g). series_sum g) (groupby_col col df)) =
      sum_list (map (\<lambda>g. series_sum g) (map (\<lambda>k. filter (\<lambda>r. col r = Some k) df) ?ks))"
    by (simp add: groupby_col_groups comp_def)
  ultimately show ?thesis by (simp only: series_sum_concat)
qed

lemma sum_list_scaled:
  fixes t :: rat
  shows "sum_list (map (\<lambda>x. f x / t * 100) xs) = sum_list (map f xs) / t * 100"
  by (induction xs) (simp_all add: add_divide_distrib distrib_right)

lemma unnamed_method_metrics:
  "map_sum id total_revenue (calculate_metrics ''2024-01-01'' unnamed_method_rows) = Inr 15"
  "map_sum id (\<lambda>m. map (\<lambda>(method, e). (method, m_percentage e)) (payment_methods m))
     (calculate_metrics ''2024-01-01'' unnamed_method_rows) = Inr [(''card'', 100 / 3)]"
  "map_sum id percentage_total (calculate_metrics ''2024-01-01'' unnamed_method_rows) = Inr (100 / 3)"
  by code_simp+

text \<open>
  C10 as stated fails: on a day of a card payment of 5 pounds and a payment of 10 pounds
  whose payment method has no name, the total revenue is 15, the breakdown has the one
  method card with 100/3 percent, and the percentages sum to 100/3.
\<close>

theorem percentages_not_100_without_method:
  "unnamed_method_rows \<noteq> [] \<and>
   map_sum id total_revenue (calculate_metrics ''2024-01-01'' unnamed_method_rows) = Inr 15 \<and>
   map_sum id (\<lambda>m. map (\<lambda>(method, e). (method, m_percentage e)) (payment_methods m))
     (calculate_metrics ''2024-01-01'' unnamed_method_rows) = Inr [(''card'', 100 / 3)] \<and>
   map_sum id percentage_total (calculate_metrics ''2024-01-01'' unnamed_method_rows) = Inr (100 / 3) \<and>
   map_sum id percentage_total (calculate_metrics ''2024-01-01'' unnamed_method_rows) \<noteq> Inr 100"
  using unnamed_method_metrics by (simp add: unnamed_method_rows_def)

text \<open>
  C10, amended. When the metrics are computed for a day with rows and a positive total
  revenue, and every row names its payment method, the percentages of the payment
  methods sum to exactly 100.
\<close>

theorem percentages_sum_to_100:
  assumes "calculate_metrics yesterday df = Inr m" and "df \<noteq> []"
    and "total_revenue m > 0" and "\<forall>r\<in>set df. payment_method r \<noteq> None"
  shows "percentage_total m = 100"
proof -
  let ?T = "series_sum df"
  from assms(1,2) have T: "total_revenue m = ?T"
    and pm: "payment_methods m =
      map (\<lambda>(method, g). (method, payment_entry_of ?T method g)) (groupby_col payment_method df)"
    by (auto simp: calculate_metrics_def Let_def split: list.splits)
  from assms(3) T have pos: "?T > 0" by simp
  have "map (\<lambda>(method, e). m_percentage e) (payment_methods m) =
      map (\<lambda>kg. (case kg of (k, g) \<Rightarrow> series_sum g) / ?T * 100) (groupby_col payment_method df)"
    unfolding pm using pos by (simp add: payment_entry_of_def comp_def case_prod_beta)
  then have "sum_list (map (\<lambda>(method, e). m_percentage e) (payment_methods m)) =
      sum_list (map (\<lambda>(k, g). series_sum g) (groupby_col payment_method df)) / ?T * 100"
    by (simp only: sum_list_scaled)
  also have "\<dots> = ?T / ?T * 100"
    by (simp only: groupby_col_revenue [OF assms(4)])
  also have "\<dots> = 100" using pos by simp
  finally show ?thesis by (simp only: percentage_total_def)
qed

lemma report_rows_metrics:
  "map_sum id total_revenue (calculate_metrics ''2024-01-01'' report_rows) = Inr 15"
  "list_all (\<lambda>r. payment_method r \<noteq> None) report_rows"
  "map_sum id (\<lambda>m. map (\<lambda>(method, e). (method, m_percentage e)) (payment_methods m))
     (calculate_metrics ''2024-01-01'' report_rows) = Inr [(''card'', 100 / 3), (''cash'', 200 / 3)]"
  by code_simp+

theorem percentages_sum_to_100_witness:
  "report_rows \<noteq> [] \<and>
   map_sum id total_revenue (calculate_metrics ''2024-01-01'' report_rows) = Inr 15 \<and>
   list_all (\<lambda>r. payment_method r \<noteq> None) report_rows \<and>
   map_sum id percentage_total (calculate_metrics ''2024-01-01'' report_rows) = Inr 100"
proof -
  have ne: "report_rows \<noteq> []" by (simp add: report_rows_def)
  from report_rows_metrics(2) have named: "\<forall>r\<in>set report_rows. payment_method r \<noteq> None"
    by (simp only: list_all_iff)
  show ?thesis
  proof (cases "calculate_metrics ''2024-01-01'' report_rows")
    case (Inl e)
    with report_rows_metrics(1) show ?thesis by simp
  next
    case (Inr m)
    with report_rows_metrics(1) have t: "total_revenue m = 15" by simp
    then have "total_revenue m > 0" by simp
    from percentages_sum_to_100 [OF Inr ne this named] Inr t ne report_rows_metrics(2)
    show ?thesis by simp
  qed
qed

end
